theory Spec2Isabelle
  imports Main "HOL-Library.AList"
begin

section \<open>Data model of \<^verbatim>\<open>channelManager.ts\<close>\<close>

text \<open>
  The channel manager keeps five tables. The two JavaScript \<^verbatim>\<open>Map\<close>s that the code iterates
  (\<^verbatim>\<open>channels\<close>, \<^verbatim>\<open>typingUsers\<close> and the inner typing maps) are association lists in insertion
  order, written with \<open>AList.update\<close> (\<^verbatim>\<open>Map.set\<close>: replace in place, or append a new key)
  and \<open>AList.delete\<close> (\<^verbatim>\<open>Map.delete\<close>) and read with \<open>map_of\<close> (\<^verbatim>\<open>Map.get\<close>). The three that are
  only looked up (\<^verbatim>\<open>wsToChannels\<close>, \<^verbatim>\<open>wsToUser\<close>, \<^verbatim>\<open>onlineUsers\<close>) are partial functions.
  A JavaScript \<^verbatim>\<open>Set\<close> is a list in insertion order.
\<close>

datatype json =
    JNull
  | JBool bool
  | JNumber int
  | JString string
  | JArray "json list"
  | JObject "(string \<times> json) list"

datatype WSEventType =
    SUBSCRIBE
  | NEW_MESSAGE
  | MESSAGE_UPDATE
  | MESSAGE_DELETE
  | MEMBER_TYPING
  | MEMBER_STOP_TYPING
  | MEMBER_STATUS_UPDATE

fun WSEventType_value :: "WSEventType \<Rightarrow> string" where
  "WSEventType_value SUBSCRIBE = ''subscribe''"
| "WSEventType_value NEW_MESSAGE = ''new-message''"
| "WSEventType_value MESSAGE_UPDATE = ''message-update''"
| "WSEventType_value MESSAGE_DELETE = ''message-delete''"
| "WSEventType_value MEMBER_TYPING = ''member-typing''"
| "WSEventType_value MEMBER_STOP_TYPING = ''member-stop-typing''"
| "WSEventType_value MEMBER_STATUS_UPDATE = ''MEMBER_STATUS_UPDATE''"

record WebSocketAuthToken =
  userId :: string
  name :: "string option"
  image :: "string option"
  exp :: int

text \<open>
  A connection is compared by reference in the code (\<^verbatim>\<open>sub.ws === ws\<close>); here it is its
  identity \<open>wsId\<close> together with the verified token that the acceptor attached to it
  (\<^verbatim>\<open>ws.user\<close>, optional in the type \<^verbatim>\<open>WebSocket & { user?: WebSocketAuthToken }\<close>).
\<close>

record WebSocket =
  wsId :: nat
  user :: "WebSocketAuthToken option"

datatype ReadyState = CONNECTING | OPEN | CLOSING | CLOSED

record TypingUser =
  userId :: string
  username :: string
  timestamp :: int

record ChannelSubscription =
  ws :: WebSocket
  userId :: string
  userInfo :: json

record ChannelManager =
  channels :: "(string \<times> ChannelSubscription list) list"
  wsToChannels :: "WebSocket \<rightharpoonup> string list"
  typingUsers :: "(string \<times> (string \<times> TypingUser) list) list"
  wsToUser :: "WebSocket \<rightharpoonup> string"
  onlineUsers :: "string \<rightharpoonup> string list"

subsection \<open>The world outside the manager\<close>

text \<open>
  What a call observes of its surroundings: the liveness of each connection, whether
  \<^verbatim>\<open>ws.send\<close> throws on it, the encoder \<^verbatim>\<open>JSON.stringify\<close>, and the clock \<^verbatim>\<open>Date.now()\<close>
  (milliseconds).
\<close>

record env =
  readyState :: "WebSocket \<Rightarrow> ReadyState"
  sendThrows :: "WebSocket \<Rightarrow> bool"
  JSON_stringify :: "json \<Rightarrow> string"
  now :: int

datatype LogLevel = INFO | WARN | ERROR | DEBUG

text \<open>
  The observable trace of a call: logger calls (level and message text), every entry into
  \<^verbatim>\<open>broadcast\<close> with its arguments, every \<^verbatim>\<open>JSON.stringify\<close> of a frame, and every
  \<^verbatim>\<open>ws.send(message)\<close> that returned normally.
\<close>

datatype effect =
    Log LogLevel string
  | Broadcast string WSEventType json "WebSocket option"
  | Stringify json
  | Send WebSocket string

datatype exn = SendError

subsection \<open>JavaScript \<^verbatim>\<open>Set\<close> on lists\<close>

definition Set_add :: "'a \<Rightarrow> 'a list \<Rightarrow> 'a list" where
  "Set_add x xs = (if x \<in> set xs then xs else xs @ [x])"

definition Set_delete :: "'a \<Rightarrow> 'a list \<Rightarrow> 'a list" where
  "Set_delete x xs = removeAll x xs"

definition TypingUser_json :: "TypingUser \<Rightarrow> json" where
  "TypingUser_json u =
     JObject [(''userId'', JString (TypingUser.userId u)),
              (''username'', JString (username u)),
              (''timestamp'', JNumber (timestamp u))]"

section \<open>The operations\<close>

definition new_ChannelManager :: ChannelManager where
  "new_ChannelManager =
     \<lparr>channels = [], wsToChannels = Map.empty, typingUsers = [],
      wsToUser = Map.empty, onlineUsers = Map.empty\<rparr>"

subsection \<open>\<^verbatim>\<open>broadcast\<close>\<close>

text \<open>
  The body of \<^verbatim>\<open>channel.forEach\<close>, with the three counters. A throwing \<^verbatim>\<open>send\<close> leaves
  the loop at once (\<open>Inl\<close>): the \<^verbatim>\<open>try\<close> of \<^verbatim>\<open>broadcast\<close> encloses the whole loop.
\<close>

fun broadcast_forEach ::
  "env \<Rightarrow> string \<Rightarrow> WebSocket option \<Rightarrow> ChannelSubscription list \<Rightarrow> nat \<times> nat \<times> nat
     \<Rightarrow> effect list \<times> (exn + nat \<times> nat \<times> nat)" where
  "broadcast_forEach e message excludeWs [] counts = ([], Inr counts)"
| "broadcast_forEach e message excludeWs (sub # rest) (sentCount, excludedCount, closedCount) =
     (if Some (ws sub) = excludeWs then
        broadcast_forEach e message excludeWs rest (sentCount, excludedCount + 1, closedCount)
      else if readyState e (ws sub) = OPEN then
        (if sendThrows e (ws sub) then ([], Inl SendError)
         else (case broadcast_forEach e message excludeWs rest
                      (sentCount + 1, excludedCount, closedCount) of
                 (effs, r) \<Rightarrow> (Send (ws sub) message # effs, r)))
      else broadcast_forEach e message excludeWs rest (sentCount, excludedCount, closedCount + 1))"

definition frame :: "WSEventType \<Rightarrow> json \<Rightarrow> json" where
  "frame event data = JObject [(''event'', JString (WSEventType_value event)), (''data'', data)]"

definition broadcast ::
  "env \<Rightarrow> ChannelManager \<Rightarrow> string \<Rightarrow> WSEventType \<Rightarrow> json \<Rightarrow> WebSocket option \<Rightarrow> effect list" where
  "broadcast e m channelName event data excludeWs =
     Broadcast channelName event data excludeWs #
     (case map_of (channels m) channelName of
        None \<Rightarrow> [Log WARN ''Attempted to broadcast to non-existent channel'']
      | Some channel \<Rightarrow>
          (let message = JSON_stringify e (frame event data) in
           Stringify (frame event data) #
           (case broadcast_forEach e message excludeWs channel (0, 0, 0) of
              (effs, Inr counts) \<Rightarrow> effs @ [Log DEBUG ''Message broadcast complete'']
            | (effs, Inl err) \<Rightarrow>
                effs @ [Log ERROR (''Failed to broadcast message to channel '' @ channelName)])))"

subsection \<open>\<^verbatim>\<open>updateOnlineStatus\<close>\<close>

definition StatusUpdate_json :: "string \<Rightarrow> bool \<Rightarrow> string list \<Rightarrow> json" where
  "StatusUpdate_json uid isOnline serverUsers =
     JObject [(''userId'', JString uid), (''isOnline'', JBool isOnline),
              (''onlineUsers'', JArray (map JString serverUsers))]"

definition updateOnlineStatus ::
  "env \<Rightarrow> string \<Rightarrow> string \<Rightarrow> bool \<Rightarrow> ChannelManager \<Rightarrow> effect list \<times> ChannelManager" where
  "updateOnlineStatus e serverId uid isOnline m =
     (let serverUsers0 = (case onlineUsers m serverId of None \<Rightarrow> [] | Some us \<Rightarrow> us);
          serverUsers = (if isOnline then Set_add uid serverUsers0
                         else Set_delete uid serverUsers0);
          m' = m\<lparr>onlineUsers := (onlineUsers m)(serverId \<mapsto> serverUsers)\<rparr>
      in (broadcast e m' serverId MEMBER_STATUS_UPDATE
            (StatusUpdate_json uid isOnline serverUsers) None
          @ [Log DEBUG ''Updated online status''], m'))"

subsection \<open>\<^verbatim>\<open>handleTyping\<close> and the typing sweep\<close>

definition StopTyping_json :: "string \<Rightarrow> string \<Rightarrow> (string \<times> TypingUser) list \<Rightarrow> json" where
  "StopTyping_json uid uname channelTyping =
     JObject [(''userId'', JString uid), (''username'', JString uname),
              (''remainingTypingUsers'', JArray (map (TypingUser_json \<circ> snd) channelTyping))]"

definition handleTyping ::
  "env \<Rightarrow> string \<Rightarrow> string \<Rightarrow> string \<Rightarrow> bool \<Rightarrow> ChannelManager \<Rightarrow> effect list \<times> ChannelManager" where
  "handleTyping e channelName uid uname isTyping m =
     (let (created, channelTyping0) =
            (case map_of (typingUsers m) channelName of
               None \<Rightarrow> ([Log DEBUG ''Created new typing map for channel''], [])
             | Some typingMap \<Rightarrow> ([], typingMap))
      in if isTyping then
           (let channelTyping =
                  AList.update uid
                    \<lparr>TypingUser.userId = uid, username = uname, timestamp = now e\<rparr> channelTyping0;
                m' = m\<lparr>typingUsers := AList.update channelName channelTyping (typingUsers m)\<rparr>
            in (Log DEBUG ''Handling typing event'' # created
                @ [Log DEBUG ''Updated typing users'']
                @ broadcast e m' channelName MEMBER_TYPING
                    (JObject [(''typingUsers'',
                               JArray (map (TypingUser_json \<circ> snd) channelTyping))]) None,
                m'))
         else
           (let channelTyping = AList.delete uid channelTyping0;
                m' = m\<lparr>typingUsers := AList.update channelName channelTyping (typingUsers m)\<rparr>
            in (Log DEBUG ''Handling typing event'' # created
                @ [Log DEBUG ''User stopped typing'']
                @ broadcast e m' channelName MEMBER_STOP_TYPING
                    (StopTyping_json uid uname channelTyping) None,
                m')))"

definition TYPING_TIMEOUT :: int where
  "TYPING_TIMEOUT = 3000"

text \<open>
  One tick of the interval callback of \<^verbatim>\<open>startTypingCleanup\<close>. The inner \<^verbatim>\<open>forEach\<close>
  deletes the entry it stands on and goes on; the outer one deletes a channel whose typing
  map has become empty. \<^verbatim>\<open>broadcast\<close> reads only \<open>channels\<close>, which the sweep leaves alone.
\<close>

definition StopTypingSweep_json :: "string \<Rightarrow> string \<Rightarrow> json" where
  "StopTypingSweep_json uid uname = JObject [(''userId'', JString uid), (''username'', JString uname)]"

fun typingCleanup_users ::
  "env \<Rightarrow> ChannelManager \<Rightarrow> string \<Rightarrow> (string \<times> TypingUser) list
     \<Rightarrow> effect list \<times> (string \<times> TypingUser) list" where
  "typingCleanup_users e m channelName [] = ([], [])"
| "typingCleanup_users e m channelName ((uid, u) # rest) =
     (case typingCleanup_users e m channelName rest of
        (effs, kept) \<Rightarrow>
          (if now e - timestamp u > TYPING_TIMEOUT then
             (broadcast e m channelName MEMBER_STOP_TYPING
                (StopTypingSweep_json uid (username u)) None
              @ effs, kept)
           else (effs, (uid, u) # kept)))"

fun typingCleanup_channels ::
  "env \<Rightarrow> ChannelManager \<Rightarrow> (string \<times> (string \<times> TypingUser) list) list
     \<Rightarrow> effect list \<times> (string \<times> (string \<times> TypingUser) list) list" where
  "typingCleanup_channels e m [] = ([], [])"
| "typingCleanup_channels e m ((channelName, typingMap) # rest) =
     (case typingCleanup_users e m channelName typingMap of
        (effs1, typingMap') \<Rightarrow>
          (case typingCleanup_channels e m rest of
             (effs2, rest') \<Rightarrow>
               (effs1 @ effs2,
                if typingMap' = [] then rest' else (channelName, typingMap') # rest')))"

definition typingCleanup :: "env \<Rightarrow> ChannelManager \<Rightarrow> effect list \<times> ChannelManager" where
  "typingCleanup e m =
     (case typingCleanup_channels e m (typingUsers m) of
        (effs, tu) \<Rightarrow> (effs, m\<lparr>typingUsers := tu\<rparr>))"

subsection \<open>\<^verbatim>\<open>subscribe\<close>\<close>

text \<open>
  The channel's \<^verbatim>\<open>Set\<close> holds subscription objects; \<^verbatim>\<open>channel.add\<close> is reached only when no
  subscription of the same connection and userId is in the channel, so it appends.
\<close>

definition userIdMismatch :: "ChannelSubscription \<Rightarrow> bool" where
  "userIdMismatch subscription =
     (case user (ws subscription) of
        None \<Rightarrow> False
      | Some tok \<Rightarrow> WebSocketAuthToken.userId tok \<noteq> userId subscription)"

definition sameSubscriber :: "ChannelSubscription \<Rightarrow> ChannelSubscription \<Rightarrow> bool" where
  "sameSubscriber subscription sub =
     (ws sub = ws subscription \<and> userId sub = userId subscription)"

definition subscribe ::
  "env \<Rightarrow> string \<Rightarrow> ChannelSubscription \<Rightarrow> ChannelManager \<Rightarrow> effect list \<times> ChannelManager" where
  "subscribe e channelName subscription m =
     (if userIdMismatch subscription then
        ([Log WARN ''User ID mismatch in subscription request''], m)
      else
        (let (channel, m1) =
               (case map_of (channels m) channelName of
                  None \<Rightarrow> ([], m\<lparr>channels := AList.update channelName [] (channels m)\<rparr>)
                | Some c \<Rightarrow> (c, m))
         in case find (sameSubscriber subscription) channel of
              Some existingSubscription \<Rightarrow> ([Log DEBUG ''Skipping duplicate subscription''], m1)
            | None \<Rightarrow>
                (let m2 = m1\<lparr>wsToUser := (wsToUser m1)(ws subscription \<mapsto> userId subscription)\<rparr>;
                     m3 = m2\<lparr>channels :=
                               AList.update channelName (channel @ [subscription]) (channels m2)\<rparr>;
                     m4 = m3\<lparr>wsToChannels :=
                               (wsToChannels m3)(ws subscription \<mapsto>
                                  Set_add channelName
                                    (case wsToChannels m3 (ws subscription) of
                                       None \<Rightarrow> [] | Some cs \<Rightarrow> cs))\<rparr>
                 in case updateOnlineStatus e channelName (userId subscription) True m4 of
                      (effs, m5) \<Rightarrow> (effs @ [Log INFO ''New subscription added''], m5))))"

subsection \<open>\<^verbatim>\<open>unsubscribe\<close>\<close>

text \<open>The \<^verbatim>\<open>for ... of\<close> with \<^verbatim>\<open>break\<close>: the first subscription of the connection is removed.\<close>

fun unsubscribe_loop ::
  "WebSocket \<Rightarrow> ChannelSubscription list \<Rightarrow> string option \<times> ChannelSubscription list" where
  "unsubscribe_loop w [] = (None, [])"
| "unsubscribe_loop w (sub # rest) =
     (if ws sub = w then (Some (userId sub), rest)
      else (case unsubscribe_loop w rest of (u, rest') \<Rightarrow> (u, sub # rest')))"

definition unsubscribe ::
  "string \<Rightarrow> WebSocket \<Rightarrow> ChannelManager \<Rightarrow> effect list \<times> ChannelManager" where
  "unsubscribe channelName w m =
     (case map_of (channels m) channelName of
        None \<Rightarrow> ([Log WARN ''Attempted to unsubscribe from non-existent channel''], m)
      | Some channel0 \<Rightarrow>
          (case unsubscribe_loop w channel0 of
             (unsubscribedUser, channel) \<Rightarrow>
               (let m1 = m\<lparr>channels := AList.update channelName channel (channels m)\<rparr>;
                    m2 = (case wsToChannels m1 w of
                            None \<Rightarrow> m1
                          | Some cs \<Rightarrow>
                              (if Set_delete channelName cs = [] then
                                 m1\<lparr>wsToChannels := (wsToChannels m1)(w := None),
                                    wsToUser := (wsToUser m1)(w := None)\<rparr>
                               else
                                 m1\<lparr>wsToChannels :=
                                      (wsToChannels m1)(w \<mapsto> Set_delete channelName cs)\<rparr>));
                    effs = (case unsubscribedUser of
                              None \<Rightarrow> []
                            | Some u \<Rightarrow>
                                if u \<noteq> [] then [Log INFO ''Client unsubscribed from channel'']
                                else [])
                in if channel = [] then
                     (effs @ [Log DEBUG ''Removed empty channel''],
                      m2\<lparr>channels := AList.delete channelName (channels m2)\<rparr>)
                   else (effs, m2))))"

subsection \<open>\<^verbatim>\<open>handleWebSocketClosure\<close>\<close>

definition closure_channel ::
  "env \<Rightarrow> WebSocket \<Rightarrow> string \<Rightarrow> string \<Rightarrow> ChannelManager \<Rightarrow> effect list \<times> ChannelManager" where
  "closure_channel e w uid channelName m =
     (case updateOnlineStatus e channelName uid False m of
        (effs1, m1) \<Rightarrow>
          (case (case map_of (typingUsers m1) channelName of
                   None \<Rightarrow> ([], m1)
                 | Some typingMap \<Rightarrow>
                     (case map_of typingMap uid of
                        None \<Rightarrow> ([], m1)
                      | Some u \<Rightarrow>
                          (let typingMap' = AList.delete uid typingMap;
                               m' = m1\<lparr>typingUsers :=
                                         AList.update channelName typingMap' (typingUsers m1)\<rparr>
                           in (broadcast e m' channelName MEMBER_STOP_TYPING
                                 (StopTyping_json uid (username u) typingMap') None
                               @ [Log DEBUG ''Removed typing indicator for disconnected user''],
                               m')))) of
             (effs2, m2) \<Rightarrow>
               (case unsubscribe channelName w m2 of
                  (effs3, m3) \<Rightarrow> (effs1 @ effs2 @ effs3, m3))))"

fun closure_forEach ::
  "env \<Rightarrow> WebSocket \<Rightarrow> string \<Rightarrow> string list \<Rightarrow> ChannelManager \<Rightarrow> effect list \<times> ChannelManager" where
  "closure_forEach e w uid [] m = ([], m)"
| "closure_forEach e w uid (channelName # rest) m =
     (case closure_channel e w uid channelName m of
        (effs, m') \<Rightarrow>
          (case closure_forEach e w uid rest m' of
             (effs', m'') \<Rightarrow> (effs @ effs', m'')))"

text \<open>
  The guard \<^verbatim>\<open>if (subscribedChannels && userId)\<close>: a \<^verbatim>\<open>Set\<close> is truthy whenever it is
  there, a string is truthy unless it is empty.
\<close>

definition handleWebSocketClosure ::
  "env \<Rightarrow> WebSocket \<Rightarrow> ChannelManager \<Rightarrow> effect list \<times> ChannelManager" where
  "handleWebSocketClosure e w m =
     (case wsToChannels m w of
        None \<Rightarrow> ([], m)
      | Some subscribedChannels \<Rightarrow>
          (case wsToUser m w of
             None \<Rightarrow> ([], m)
           | Some uid \<Rightarrow>
               (if uid = [] then ([], m)
                else
                  (case closure_forEach e w uid subscribedChannels m of
                     (effs, m') \<Rightarrow>
                       (effs @ [Log INFO ''Cleaned up disconnected user''],
                        m'\<lparr>wsToChannels := (wsToChannels m')(w := None),
                           wsToUser := (wsToUser m')(w := None)\<rparr>)))))"

subsection \<open>\<^verbatim>\<open>getChannelStats\<close> and \<^verbatim>\<open>cleanupInactiveConnections\<close>\<close>

definition getChannelStats :: "ChannelManager \<Rightarrow> effect list \<times> nat \<times> (string \<times> nat) list" where
  "getChannelStats m =
     ([Log DEBUG ''Channel statistics''],
      length (channels m), map (\<lambda>(name, subs). (name, length subs)) (channels m))"

text \<open>
  The inner loop removes each subscription whose connection is not open and takes the
  channel out of that connection's \<open>wsToChannels\<close> entry; \<open>wsToUser\<close> is not touched.
\<close>

fun cleanup_subscribers ::
  "env \<Rightarrow> string \<Rightarrow> ChannelSubscription list \<Rightarrow> (WebSocket \<rightharpoonup> string list) \<Rightarrow> nat
     \<Rightarrow> ChannelSubscription list \<times> (WebSocket \<rightharpoonup> string list) \<times> nat" where
  "cleanup_subscribers e channelName [] w2c cleanupCount = ([], w2c, cleanupCount)"
| "cleanup_subscribers e channelName (sub # rest) w2c cleanupCount =
     (if readyState e (ws sub) \<noteq> OPEN then
        cleanup_subscribers e channelName rest
          (case w2c (ws sub) of
             None \<Rightarrow> w2c
           | Some cs \<Rightarrow>
               (if Set_delete channelName cs = [] then w2c(ws sub := None)
                else w2c(ws sub \<mapsto> Set_delete channelName cs)))
          (cleanupCount + 1)
      else
        (case cleanup_subscribers e channelName rest w2c cleanupCount of
           (kept, w2c', n) \<Rightarrow> (sub # kept, w2c', n)))"

fun cleanup_channels ::
  "env \<Rightarrow> (string \<times> ChannelSubscription list) list \<Rightarrow> (WebSocket \<rightharpoonup> string list) \<Rightarrow> nat
     \<Rightarrow> effect list \<times> (string \<times> ChannelSubscription list) list
        \<times> (WebSocket \<rightharpoonup> string list) \<times> nat" where
  "cleanup_channels e [] w2c cleanupCount = ([], [], w2c, cleanupCount)"
| "cleanup_channels e ((channelName, subscribers) # rest) w2c cleanupCount =
     (case cleanup_subscribers e channelName subscribers w2c cleanupCount of
        (subscribers', w2c', n) \<Rightarrow>
          (case cleanup_channels e rest w2c' n of
             (effs, rest', w2c'', n') \<Rightarrow>
               (if subscribers' = [] then
                  (Log DEBUG ''Removed empty channel during cleanup'' # effs, rest', w2c'', n')
                else if length subscribers' \<noteq> length subscribers then
                  (Log DEBUG ''Cleaned up inactive connections in channel'' # effs,
                   (channelName, subscribers') # rest', w2c'', n')
                else (effs, (channelName, subscribers') # rest', w2c'', n'))))"

definition cleanupInactiveConnections ::
  "env \<Rightarrow> ChannelManager \<Rightarrow> effect list \<times> ChannelManager" where
  "cleanupInactiveConnections e m =
     (case cleanup_channels e (channels m) (wsToChannels m) 0 of
        (effs, chans, w2c, cleanupCount) \<Rightarrow>
          (Log INFO ''Starting cleanup of inactive connections'' # effs
           @ [Log INFO ''Inactive connection cleanup complete''],
           m\<lparr>channels := chans, wsToChannels := w2c\<rparr>))"

section \<open>Sequences of calls\<close>

datatype op =
    Subscribe string ChannelSubscription
  | Unsubscribe string WebSocket
  | Closure WebSocket
  | Typing string string string bool
  | TypingSweep
  | Cleanup

fun exec :: "env \<Rightarrow> op \<Rightarrow> ChannelManager \<Rightarrow> effect list \<times> ChannelManager" where
  "exec e (Subscribe channelName subscription) m = subscribe e channelName subscription m"
| "exec e (Unsubscribe channelName w) m = unsubscribe channelName w m"
| "exec e (Closure w) m = handleWebSocketClosure e w m"
| "exec e (Typing channelName uid uname isTyping) m = handleTyping e channelName uid uname isTyping m"
| "exec e TypingSweep m = typingCleanup e m"
| "exec e Cleanup m = cleanupInactiveConnections e m"

fun run :: "(env \<times> op) list \<Rightarrow> ChannelManager \<Rightarrow> ChannelManager" where
  "run [] m = m"
| "run ((e, x) # rest) m = run rest (snd (exec e x m))"

section \<open>Reading a trace\<close>

fun broadcasts :: "effect list \<Rightarrow> (string \<times> WSEventType \<times> json) list" where
  "broadcasts [] = []"
| "broadcasts (Broadcast channelName event data excludeWs # effs) =
     (channelName, event, data) # broadcasts effs"
| "broadcasts (x # effs) = broadcasts effs"

fun sends :: "effect list \<Rightarrow> (WebSocket \<times> string) list" where
  "sends [] = []"
| "sends (Send w message # effs) = (w, message) # sends effs"
| "sends (x # effs) = sends effs"

fun stringifies :: "effect list \<Rightarrow> json list" where
  "stringifies [] = []"
| "stringifies (Stringify j # effs) = j # stringifies effs"
| "stringifies (x # effs) = stringifies effs"

fun payload_keys :: "json \<Rightarrow> string list" where
  "payload_keys (JObject kvs) = map fst kvs"
| "payload_keys j = []"

definition payloads :: "WSEventType \<Rightarrow> effect list \<Rightarrow> json list" where
  "payloads event effs =
     map (\<lambda>(channelName, ev, data). data)
       (filter (\<lambda>(channelName, ev, data). ev = event) (broadcasts effs))"

definition subscribers :: "ChannelManager \<Rightarrow> string \<Rightarrow> ChannelSubscription list" where
  "subscribers m channelName =
     (case map_of (channels m) channelName of None \<Rightarrow> [] | Some channel \<Rightarrow> channel)"

definition subscribedChannels :: "ChannelManager \<Rightarrow> WebSocket \<Rightarrow> string list" where
  "subscribedChannels m w = (case wsToChannels m w of None \<Rightarrow> [] | Some cs \<Rightarrow> cs)"

definition online :: "ChannelManager \<Rightarrow> string \<Rightarrow> string list" where
  "online m channelName = (case onlineUsers m channelName of None \<Rightarrow> [] | Some us \<Rightarrow> us)"

section \<open>Example connections and surroundings\<close>

definition mk_token :: "string \<Rightarrow> WebSocketAuthToken" where
  "mk_token uid = \<lparr>WebSocketAuthToken.userId = uid, name = None, image = None, exp = 0\<rparr>"

definition mk_conn :: "nat \<Rightarrow> string \<Rightarrow> WebSocket" where
  "mk_conn i uid = \<lparr>wsId = i, user = Some (mk_token uid)\<rparr>"

definition mk_anonymous :: "nat \<Rightarrow> WebSocket" where
  "mk_anonymous i = \<lparr>wsId = i, user = None\<rparr>"

definition mk_subscription :: "WebSocket \<Rightarrow> string \<Rightarrow> ChannelSubscription" where
  "mk_subscription w uid = \<lparr>ws = w, userId = uid, userInfo = JNull\<rparr>"

text \<open>An encoder for the examples: it writes the event name and the keys of the payload.\<close>

fun encode :: "json \<Rightarrow> string" where
  "encode (JObject [(k, JString ev), (k', data)]) = ev @ concat (payload_keys data)"
| "encode j = []"

definition world :: "(WebSocket \<Rightarrow> ReadyState) \<Rightarrow> (WebSocket \<Rightarrow> bool) \<Rightarrow> int \<Rightarrow> env" where
  "world rs thr t = \<lparr>readyState = rs, sendThrows = thr, JSON_stringify = encode, now = t\<rparr>"

definition calm :: "int \<Rightarrow> env" where
  "calm t = world (\<lambda>w. OPEN) (\<lambda>w. False) t"

definition alice :: WebSocket where
  "alice = mk_conn 1 ''u1''"

definition bob :: WebSocket where
  "bob = mk_conn 2 ''u2''"

definition carol :: WebSocket where
  "carol = mk_conn 3 ''u3''"

definition dave :: WebSocket where
  "dave = mk_conn 4 ''u4''"

definition alice_fails :: env where
  "alice_fails = world (\<lambda>w. OPEN) (\<lambda>w. wsId w = 1) 0"

definition carol_fails :: env where
  "carol_fails = world (\<lambda>w. OPEN) (\<lambda>w. wsId w = 3) 0"

definition alice_closed :: env where
  "alice_closed = world (\<lambda>w. if wsId w = 1 then CLOSED else OPEN) (\<lambda>w. False) 0"

definition dave_closed :: env where
  "dave_closed = world (\<lambda>w. if wsId w = 4 then CLOSED else OPEN) (\<lambda>w. False) 0"

definition alice_and_bob_in_x :: ChannelManager where
  "alice_and_bob_in_x =
     run [(calm 0, Subscribe ''x'' (mk_subscription alice ''u1'')),
          (calm 0, Subscribe ''x'' (mk_subscription bob ''u2''))] new_ChannelManager"

definition alice_typing_in_a :: ChannelManager where
  "alice_typing_in_a =
     run [(calm 0, Subscribe ''a'' (mk_subscription alice ''u1'')),
          (calm 0, Subscribe ''b'' (mk_subscription alice ''u1'')),
          (calm 0, Typing ''a'' ''u1'' ''Alice'' True)] new_ChannelManager"

definition alice_typing_swept_thrice :: ChannelManager where
  "alice_typing_swept_thrice =
     run [(calm 1000, TypingSweep), (calm 2000, TypingSweep), (calm 3000, TypingSweep)]
       alice_typing_in_a"

definition anonymous_twice_in_x :: ChannelManager where
  "anonymous_twice_in_x =
     run [(calm 0, Subscribe ''x'' (mk_subscription (mk_anonymous 9) ''u1'')),
          (calm 0, Subscribe ''x'' (mk_subscription (mk_anonymous 9) ''u2'')),
          (calm 0, Unsubscribe ''x'' (mk_anonymous 9))] new_ChannelManager"

definition alice_left_x :: ChannelManager where
  "alice_left_x =
     run [(calm 0, Subscribe ''x'' (mk_subscription alice ''u1'')),
          (calm 0, Unsubscribe ''x'' alice)] new_ChannelManager"

definition alice_bob_steps :: "(env \<times> op) list" where
  "alice_bob_steps =
     [(calm 0, Subscribe ''x'' (mk_subscription alice ''u1'')),
      (calm 0, Subscribe ''x'' (mk_subscription bob ''u2'')),
      (calm 0, Subscribe ''y'' (mk_subscription alice ''u1'')),
      (calm 0, Unsubscribe ''x'' alice)]"

definition alice_again :: WebSocket where
  "alice_again = mk_conn 5 ''u1''"

definition reconnect_steps :: "(env \<times> op) list" where
  "reconnect_steps =
     [(calm 0, Subscribe ''x'' (mk_subscription alice ''u1'')),
      (calm 0, Subscribe ''x'' (mk_subscription bob ''u2'')),
      (calm 0, Closure alice),
      (calm 0, Subscribe ''x'' (mk_subscription alice_again ''u1''))]"

definition two_tabs_one_closed :: ChannelManager where
  "two_tabs_one_closed =
     run [(calm 0, Subscribe ''x'' (mk_subscription alice ''u1'')),
          (calm 0, Subscribe ''x'' (mk_subscription alice_again ''u1'')),
          (calm 0, Closure alice)] new_ChannelManager"

definition anonymous_closed :: ChannelManager where
  "anonymous_closed =
     run [(calm 0, Subscribe ''x'' (mk_subscription (mk_anonymous 9) ''u1'')),
          (calm 0, Subscribe ''x'' (mk_subscription (mk_anonymous 9) ''u2'')),
          (calm 0, Closure (mk_anonymous 9))] new_ChannelManager"



definition four_in_x :: ChannelManager where
  "four_in_x =
     run [(calm 0, Subscribe ''x'' (mk_subscription carol ''u3'')),
          (calm 0, Subscribe ''x'' (mk_subscription dave ''u4''))] alice_and_bob_in_x"

section \<open>Auxiliary notions for the statements\<close>

text \<open>A subscriber that \<^verbatim>\<open>broadcast\<close> tries to send to: not the excluded one, and open.\<close>

definition eligible :: "env \<Rightarrow> WebSocket option \<Rightarrow> ChannelSubscription \<Rightarrow> bool" where
  "eligible e excludeWs sub = (Some (ws sub) \<noteq> excludeWs \<and> readyState e (ws sub) = OPEN)"

text \<open>The state that a successful new \<^verbatim>\<open>subscribe\<close> leaves.\<close>

definition subscribed :: "string \<Rightarrow> ChannelSubscription \<Rightarrow> ChannelManager \<Rightarrow> ChannelManager" where
  "subscribed c s m =
     m\<lparr>wsToUser := (wsToUser m)(ws s \<mapsto> userId s),
       channels := AList.update c (subscribers m c @ [s]) (channels m),
       wsToChannels := (wsToChannels m)(ws s \<mapsto> Set_add c (subscribedChannels m (ws s))),
       onlineUsers := (onlineUsers m)(c \<mapsto> Set_add (userId s) (online m c))\<rparr>"

text \<open>The test of the typing sweep, an eviction's broadcast, and a typing map after a sweep.\<close>

definition expired :: "env \<Rightarrow> string \<times> TypingUser \<Rightarrow> bool" where
  "expired e x = (now e - timestamp (snd x) > TYPING_TIMEOUT)"

definition eviction :: "string \<Rightarrow> string \<times> TypingUser \<Rightarrow> string \<times> WSEventType \<times> json" where
  "eviction c x = (c, MEMBER_STOP_TYPING, StopTypingSweep_json (fst x) (username (snd x)))"

definition swept ::
  "env \<Rightarrow> string \<times> (string \<times> TypingUser) list \<Rightarrow> string \<times> (string \<times> TypingUser) list" where
  "swept e x = (fst x, filter (\<lambda>y. \<not> expired e y) (snd x))"

definition typingEntry :: "ChannelManager \<Rightarrow> string \<Rightarrow> string \<Rightarrow> TypingUser option" where
  "typingEntry m c uid =
     (case map_of (typingUsers m) c of None \<Rightarrow> None | Some typingMap \<Rightarrow> map_of typingMap uid)"

text \<open>The keys of a JavaScript \<^verbatim>\<open>Map\<close> are unique.\<close>

definition typing_wf :: "ChannelManager \<Rightarrow> bool" where
  "typing_wf m =
     (distinct (map fst (typingUsers m)) \<and>
      (\<forall>x\<in>set (typingUsers m). distinct (map fst (snd x))))"

fun json_field :: "string \<Rightarrow> json \<Rightarrow> json option" where
  "json_field k (JObject kvs) = map_of kvs k"
| "json_field k j = None"

text \<open>The calls of \<^verbatim>\<open>broadcast\<close> in a trace that announce that a user stopped typing in a channel.\<close>

definition stopTypingFor ::
  "string \<Rightarrow> string \<Rightarrow> effect list \<Rightarrow> (string \<times> WSEventType \<times> json) list" where
  "stopTypingFor c uid effs =
     filter (\<lambda>b. fst b = c \<and> fst (snd b) = MEMBER_STOP_TYPING \<and>
                 json_field ''userId'' (snd (snd b)) = Some (JString uid))
       (broadcasts effs)"

text \<open>Notions for \<^verbatim>\<open>cleanupInactiveConnections\<close>.\<close>

definition isOpen :: "env \<Rightarrow> ChannelSubscription \<Rightarrow> bool" where
  "isOpen e sub = (readyState e (ws sub) = OPEN)"

definition cleaned ::
  "env \<Rightarrow> string \<times> ChannelSubscription list \<Rightarrow> string \<times> ChannelSubscription list" where
  "cleaned e x = (fst x, filter (isOpen e) (snd x))"

definition unindexed :: "(WebSocket \<rightharpoonup> string list) \<Rightarrow> WebSocket \<Rightarrow> string \<Rightarrow> bool" where
  "unindexed w2c w c = (case w2c w of None \<Rightarrow> True | Some cs \<Rightarrow> c \<notin> set cs \<and> cs \<noteq> [])"

text \<open>The calls whose code contains \<^verbatim>\<open>wsToUser.delete\<close>.\<close>

fun purges :: "op \<Rightarrow> bool" where
  "purges (Unsubscribe channelName w) = True"
| "purges (Closure w) = True"
| "purges x = False"

text \<open>Notions for the consistency of the indexes and of presence.\<close>

definition verifiedUserId :: "WebSocket \<Rightarrow> string option" where
  "verifiedUserId w = (case user w of None \<Rightarrow> None | Some tok \<Rightarrow> Some (WebSocketAuthToken.userId tok))"

definition core_inv :: "ChannelManager \<Rightarrow> bool" where
  "core_inv m =
     ((\<forall>w c. (\<exists>s\<in>set (subscribers m c). ws s = w) \<longleftrightarrow> c \<in> set (subscribedChannels m w)) \<and>
      (\<forall>c. distinct (map ws (subscribers m c))) \<and>
      (\<forall>c. \<forall>s\<in>set (subscribers m c). verifiedUserId (ws s) = Some (userId s)) \<and>
      (\<forall>w u. wsToUser m w = Some u \<longrightarrow> verifiedUserId w = Some u))"

text \<open>The state in which \<^verbatim>\<open>handleWebSocketClosure\<close> calls \<^verbatim>\<open>unsubscribe\<close> for a channel.\<close>

definition before_unsubscribe ::
  "env \<Rightarrow> string \<Rightarrow> string \<Rightarrow> ChannelManager \<Rightarrow> ChannelManager" where
  "before_unsubscribe e uid c m =
     (let m1 = snd (updateOnlineStatus e c uid False m) in
      case map_of (typingUsers m1) c of
        None \<Rightarrow> m1
      | Some typingMap \<Rightarrow>
          (case map_of typingMap uid of
             None \<Rightarrow> m1
           | Some u \<Rightarrow> m1\<lparr>typingUsers := AList.update c (AList.delete uid typingMap) (typingUsers m1)\<rparr>))"

text \<open>
  The calls of the sequences for which the indexes are shown consistent: \<^verbatim>\<open>subscribe\<close> by a
  connection with a verified identity, \<^verbatim>\<open>unsubscribe\<close>, \<^verbatim>\<open>handleWebSocketClosure\<close>, typing
  signals and typing sweeps.
\<close>

fun admitted :: "op \<Rightarrow> bool" where
  "admitted (Subscribe channelName s) = (user (ws s) \<noteq> None)"
| "admitted Cleanup = False"
| "admitted x = True"

text \<open>
  The condition under which presence is shown to follow the subscriptions, step by step along
  a sequence: \<^verbatim>\<open>subscribe\<close> is called by connections with a verified identity, there is no
  stand-alone \<^verbatim>\<open>unsubscribe\<close>, and when a connection is torn down no other connection holds
  a subscription under its userId in one of its channels.
\<close>

fun presence_step :: "op \<Rightarrow> ChannelManager \<Rightarrow> bool" where
  "presence_step (Subscribe channelName s) m = (user (ws s) \<noteq> None)"
| "presence_step (Unsubscribe channelName w) m = False"
| "presence_step (Closure w) m =
     (\<forall>c\<in>set (subscribedChannels m w). \<forall>x\<in>set (subscribers m c).
        Some (userId x) = wsToUser m w \<longrightarrow> ws x = w)"
| "presence_step (Typing channelName uid uname isTyping) m = True"
| "presence_step TypingSweep m = True"
| "presence_step Cleanup m = False"

fun presence_safe :: "(env \<times> op) list \<Rightarrow> ChannelManager \<Rightarrow> bool" where
  "presence_safe [] m = True"
| "presence_safe ((e, x) # rest) m =
     (presence_step x m \<and> presence_safe rest (snd (exec e x m)))"

definition presence_inv :: "ChannelManager \<Rightarrow> bool" where
  "presence_inv m =
     (\<forall>c u. u \<in> set (online m c) \<longleftrightarrow> (\<exists>s\<in>set (subscribers m c). userId s = u))"



section \<open>Traces and \<^verbatim>\<open>broadcast\<close>\<close>

lemmas example_defs =
  alice_def bob_def carol_def dave_def alice_and_bob_in_x_def mk_conn_def mk_token_def
  mk_subscription_def mk_anonymous_def world_def calm_def new_ChannelManager_def

lemmas op_defs =
  subscribe_def unsubscribe_def updateOnlineStatus_def broadcast_def frame_def
  userIdMismatch_def sameSubscriber_def Set_add_def Set_delete_def StatusUpdate_json_def
  subscribers_def online_def subscribedChannels_def

lemma broadcasts_append: "broadcasts (xs @ ys) = broadcasts xs @ broadcasts ys"
  by (induction xs rule: broadcasts.induct) simp_all

lemma sends_append: "sends (xs @ ys) = sends xs @ sends ys"
  by (induction xs rule: sends.induct) simp_all

lemma stringifies_append: "stringifies (xs @ ys) = stringifies xs @ stringifies ys"
  by (induction xs rule: stringifies.induct) simp_all

lemma broadcasts_forEach:
  "broadcast_forEach e msg ex ch cnt = (effs, r) \<Longrightarrow> broadcasts effs = []"
  by (induction e msg ex ch cnt arbitrary: effs r rule: broadcast_forEach.induct)
     (auto split: prod.splits if_splits)

lemma broadcasts_broadcast: "broadcasts (broadcast e m c ev d ex) = [(c, ev, d)]"
  by (auto simp: broadcast_def Let_def broadcasts_append broadcasts_forEach
           split: option.splits prod.splits sum.splits)

lemma forEach_throw:
  "\<forall>sub\<in>set before. eligible e ex sub \<longrightarrow> \<not> sendThrows e (ws sub) \<Longrightarrow>
   eligible e ex failing \<Longrightarrow> sendThrows e (ws failing) \<Longrightarrow>
   broadcast_forEach e msg ex (before @ failing # rest) cnt =
     (map (\<lambda>sub. Send (ws sub) msg) (filter (eligible e ex) before), Inl SendError)"
  by (induction e msg ex before cnt rule: broadcast_forEach.induct) (auto simp: eligible_def)

lemma sends_map_Send: "sends (map (\<lambda>sub. Send (f sub) msg) xs) = map (\<lambda>sub. (f sub, msg)) xs"
  by (induction xs) auto

lemma stringifies_map_Send: "stringifies (map (\<lambda>sub. Send (f sub) msg) xs) = []"
  by (induction xs) auto

lemma forEach_sent:
  "fst (broadcast_forEach e msg ex ch cnt) =
     map (\<lambda>sub. Send (ws sub) msg)
       (takeWhile (\<lambda>sub. \<not> sendThrows e (ws sub)) (filter (eligible e ex) ch))"
  by (induction e msg ex ch cnt rule: broadcast_forEach.induct)
     (auto simp: eligible_def case_prod_beta)

lemma trace_broadcast:
  "map_of (channels m) c = Some ch \<Longrightarrow>
   sends (broadcast e m c ev d ex) =
     sends (fst (broadcast_forEach e (JSON_stringify e (frame ev d)) ex ch (0, 0, 0))) \<and>
   stringifies (broadcast e m c ev d ex) =
     frame ev d #
     stringifies (fst (broadcast_forEach e (JSON_stringify e (frame ev d)) ex ch (0, 0, 0)))"
  by (cases "broadcast_forEach e (JSON_stringify e (frame ev d)) ex ch (0, 0, 0)")
     (auto simp: broadcast_def sends_append stringifies_append split: sum.splits)

text \<open>
  Claim C8, as the specification states it, fails when a send throws: \<open>x\<close> has four open
  subscribers, the send to the third throws, and neither the third nor the fourth is sent
  the frame.
\<close>

theorem broadcast_fan_out_counterexample:
  "map ws (subscribers four_in_x ''x'') = [alice, bob, carol, dave] \<and>
   readyState carol_fails alice = OPEN \<and> readyState carol_fails bob = OPEN \<and>
   readyState carol_fails carol = OPEN \<and> readyState carol_fails dave = OPEN \<and>
   sends (broadcast carol_fails four_in_x ''x'' NEW_MESSAGE JNull None) =
     [(alice, ''new-message''), (bob, ''new-message'')]"
  by (simp add: example_defs four_in_x_def carol_fails_def op_defs Let_def)

text \<open>
  Claim C8, amended. Every \<^verbatim>\<open>broadcast\<close> on an existing channel serializes the frame
  \<^verbatim>\<open>{event, data}\<close> exactly once and sends that one encoded string once to each subscription
  that is neither the excluded connection nor on a connection that is not open, in
  insertion order, up to the first of them whose send throws; nothing is sent to any other
  connection. When no such send throws, every open, non-excluded subscription is sent the
  frame exactly once.
\<close>

theorem broadcast_fan_out:
  assumes "map_of (channels m) channelName = Some channel"
  shows "stringifies (broadcast e m channelName event data excludeWs) = [frame event data] \<and>
         sends (broadcast e m channelName event data excludeWs) =
           map (\<lambda>sub. (ws sub, JSON_stringify e (frame event data)))
             (takeWhile (\<lambda>sub. \<not> sendThrows e (ws sub))
                (filter (\<lambda>sub. Some (ws sub) \<noteq> excludeWs \<and> readyState e (ws sub) = OPEN)
                   channel)) \<and>
         ((\<forall>sub\<in>set channel. eligible e excludeWs sub \<longrightarrow> \<not> sendThrows e (ws sub)) \<longrightarrow>
          sends (broadcast e m channelName event data excludeWs) =
            map (\<lambda>sub. (ws sub, JSON_stringify e (frame event data)))
              (filter (\<lambda>sub. Some (ws sub) \<noteq> excludeWs \<and> readyState e (ws sub) = OPEN)
                 channel))"
proof -
  have el: "eligible e excludeWs = (\<lambda>sub. Some (ws sub) \<noteq> excludeWs \<and> readyState e (ws sub) = OPEN)"
    by (simp add: eligible_def fun_eq_iff)
  have tr: "sends (broadcast e m channelName event data excludeWs) =
           map (\<lambda>sub. (ws sub, JSON_stringify e (frame event data)))
             (takeWhile (\<lambda>sub. \<not> sendThrows e (ws sub)) (filter (eligible e excludeWs) channel))"
    and js: "stringifies (broadcast e m channelName event data excludeWs) = [frame event data]"
    using trace_broadcast[OF assms, of e event data excludeWs]
    by (simp_all add: forEach_sent sends_map_Send stringifies_map_Send)
  have full: "(\<forall>sub\<in>set channel. eligible e excludeWs sub \<longrightarrow> \<not> sendThrows e (ws sub)) \<longrightarrow>
          sends (broadcast e m channelName event data excludeWs) =
            map (\<lambda>sub. (ws sub, JSON_stringify e (frame event data)))
              (filter (eligible e excludeWs) channel)"
  proof
    assume "\<forall>sub\<in>set channel. eligible e excludeWs sub \<longrightarrow> \<not> sendThrows e (ws sub)"
    then have "takeWhile (\<lambda>sub. \<not> sendThrows e (ws sub)) (filter (eligible e excludeWs) channel) =
             filter (eligible e excludeWs) channel"
      by simp
    then show "sends (broadcast e m channelName event data excludeWs) =
            map (\<lambda>sub. (ws sub, JSON_stringify e (frame event data)))
              (filter (eligible e excludeWs) channel)"
      by (simp only: tr)
  qed
  show ?thesis
    using tr js full unfolding el by (intro conjI)
qed

text \<open>
  The scenario of the specification: channel \<open>x\<close> with three open subscribers and a closed
  one; the frame reaches the three, and two of them when one is excluded.
\<close>

theorem broadcast_fan_out_witness:
  "map ws (subscribers four_in_x ''x'') = [alice, bob, carol, dave] \<and>
   stringifies (broadcast dave_closed four_in_x ''x'' NEW_MESSAGE JNull None) =
     [frame NEW_MESSAGE JNull] \<and>
   sends (broadcast dave_closed four_in_x ''x'' NEW_MESSAGE JNull None) =
     [(alice, ''new-message''), (bob, ''new-message''), (carol, ''new-message'')] \<and>
   sends (broadcast dave_closed four_in_x ''x'' NEW_MESSAGE JNull (Some bob)) =
     [(alice, ''new-message''), (carol, ''new-message'')]"
proof -
  have ch: "map_of (channels four_in_x) ''x'' =
      Some [mk_subscription alice ''u1'', mk_subscription bob ''u2'',
            mk_subscription carol ''u3'', mk_subscription dave ''u4'']"
    by (simp add: example_defs four_in_x_def dave_closed_def op_defs)
  have quiet: "\<forall>sub\<in>set [mk_subscription alice ''u1'', mk_subscription bob ''u2'',
            mk_subscription carol ''u3'', mk_subscription dave ''u4''].
          eligible dave_closed ex sub \<longrightarrow> \<not> sendThrows dave_closed (ws sub)" for ex
    by (simp add: example_defs four_in_x_def dave_closed_def)
  show ?thesis
    using broadcast_fan_out[where excludeWs = None and event = NEW_MESSAGE and data = JNull,
            OF ch]
          broadcast_fan_out[where excludeWs = "Some bob" and event = NEW_MESSAGE and data = JNull,
            OF ch] ch quiet
    by (simp add: example_defs four_in_x_def dave_closed_def subscribers_def frame_def)
qed

text \<open>
  Claim C1, as the specification states it, fails: \<open>alice\<close> and \<open>bob\<close> are both open
  subscribers of \<open>x\<close>, the send to \<open>alice\<close> throws, the send to \<open>bob\<close> would not, and
  \<open>bob\<close> receives nothing.
\<close>

theorem broadcast_abort_counterexample:
  "map ws (subscribers alice_and_bob_in_x ''x'') = [alice, bob] \<and>
   readyState alice_fails alice = OPEN \<and> readyState alice_fails bob = OPEN \<and>
   sendThrows alice_fails alice \<and> \<not> sendThrows alice_fails bob \<and>
   sends (broadcast alice_fails alice_and_bob_in_x ''x'' NEW_MESSAGE JNull None) = []"
  by (simp add: example_defs alice_fails_def op_defs)

text \<open>
  Claim C1, amended. When the send to a subscriber throws, \<^verbatim>\<open>broadcast\<close> stops there: the
  open, non-excluded subscribers that precede it in the channel's insertion order have each
  been sent the frame, no later subscriber is sent anything, and the exception is caught
  inside \<^verbatim>\<open>broadcast\<close> and logged as an error; the call itself returns normally.
\<close>

theorem broadcast_stops_at_failing_send:
  assumes "map_of (channels m) channelName = Some (before @ failing # rest)"
      and "eligible e excludeWs failing" and "sendThrows e (ws failing)"
      and "\<forall>sub\<in>set before. eligible e excludeWs sub \<longrightarrow> \<not> sendThrows e (ws sub)"
  shows "broadcast e m channelName event data excludeWs =
           Broadcast channelName event data excludeWs # Stringify (frame event data) #
           map (\<lambda>sub. Send (ws sub) (JSON_stringify e (frame event data)))
             (filter (eligible e excludeWs) before)
           @ [Log ERROR (''Failed to broadcast message to channel '' @ channelName)]"
  using assms(1) forEach_throw[OF assms(4,2,3)] by (simp add: broadcast_def)

theorem broadcast_stops_at_failing_send_witness:
  "map_of (channels four_in_x) ''x'' =
     Some ([mk_subscription alice ''u1'', mk_subscription bob ''u2'']
           @ mk_subscription carol ''u3'' # [mk_subscription dave ''u4'']) \<and>
   eligible carol_fails None (mk_subscription carol ''u3'') \<and>
   sendThrows carol_fails (ws (mk_subscription carol ''u3'')) \<and>
   eligible carol_fails None (mk_subscription dave ''u4'') \<and>
   broadcast carol_fails four_in_x ''x'' NEW_MESSAGE JNull None =
     [Broadcast ''x'' NEW_MESSAGE JNull None, Stringify (frame NEW_MESSAGE JNull),
      Send alice ''new-message'', Send bob ''new-message'',
      Log ERROR ''Failed to broadcast message to channel x'']"
proof -
  have ch: "map_of (channels four_in_x) ''x'' =
     Some ([mk_subscription alice ''u1'', mk_subscription bob ''u2'']
           @ mk_subscription carol ''u3'' # [mk_subscription dave ''u4''])"
    by (simp add: example_defs four_in_x_def carol_fails_def op_defs)
  have el: "eligible carol_fails None (mk_subscription carol ''u3'')"
    and thr: "sendThrows carol_fails (ws (mk_subscription carol ''u3''))"
    and el': "eligible carol_fails None (mk_subscription dave ''u4'')"
    and quiet: "\<forall>sub\<in>set [mk_subscription alice ''u1'', mk_subscription bob ''u2''].
          eligible carol_fails None sub \<longrightarrow> \<not> sendThrows carol_fails (ws sub)"
    by (simp_all add: example_defs four_in_x_def carol_fails_def eligible_def)
  show ?thesis
    using broadcast_stops_at_failing_send[OF ch el thr quiet, of NEW_MESSAGE JNull] ch el thr el'
    by (simp add: example_defs four_in_x_def carol_fails_def eligible_def frame_def)
qed

section \<open>\<^verbatim>\<open>subscribe\<close>\<close>

lemma subscribe_rejected:
  "userIdMismatch s \<Longrightarrow>
   subscribe e c s m = ([Log WARN ''User ID mismatch in subscription request''], m)"
  by (simp add: subscribe_def)

lemma subscribe_duplicate:
  "\<not> userIdMismatch s \<Longrightarrow> find (sameSubscriber s) (subscribers m c) = Some x \<Longrightarrow>
   subscribe e c s m = ([Log DEBUG ''Skipping duplicate subscription''], m)"
  by (simp add: subscribe_def subscribers_def split: option.splits)

lemma subscribe_new:
  "\<not> userIdMismatch s \<Longrightarrow> find (sameSubscriber s) (subscribers m c) = None \<Longrightarrow>
   subscribe e c s m =
     (broadcast e (subscribed c s m) c MEMBER_STATUS_UPDATE
        (StatusUpdate_json (userId s) True (Set_add (userId s) (online m c))) None
      @ [Log DEBUG ''Updated online status'', Log INFO ''New subscription added''],
      subscribed c s m)"
  by (cases "map_of (channels m) c")
     (simp_all add: subscribe_def subscribers_def subscribed_def updateOnlineStatus_def
        online_def subscribedChannels_def Let_def split: option.split)

lemma subscribers_subscribed: "subscribers (subscribed c s m) c = subscribers m c @ [s]"
  by (simp add: subscribers_def subscribed_def update_conv')

lemma online_subscribed: "online (subscribed c s m) c = Set_add (userId s) (online m c)"
  by (simp add: online_def subscribed_def)

lemma find_snoc: "find P xs = None \<Longrightarrow> P s \<Longrightarrow> find P (xs @ [s]) = Some s"
  by (induction xs) (auto split: if_splits)

lemma find_None_filter: "find P xs = None \<Longrightarrow> filter P xs = []"
  by (induction xs) (auto split: if_splits)

text \<open>
  Claim C6. When the connection carries a verified identity whose userId differs from the
  claimed one, \<^verbatim>\<open>subscribe\<close> returns the manager as it was (all five tables) and its whole
  trace is one warning of the logger: no broadcast, no send, and nothing raised.
\<close>

theorem subscribe_mismatch_rejected:
  assumes "user (ws subscription) = Some tok"
      and "WebSocketAuthToken.userId tok \<noteq> userId subscription"
  shows "subscribe e channelName subscription m =
           ([Log WARN ''User ID mismatch in subscription request''], m)"
  using assms by (simp add: subscribe_def userIdMismatch_def)

theorem subscribe_mismatch_rejected_witness:
  "user (ws (mk_subscription alice ''u2'')) = Some (mk_token ''u1'') \<and>
   WebSocketAuthToken.userId (mk_token ''u1'') \<noteq> userId (mk_subscription alice ''u2'') \<and>
   subscribe (calm 0) ''x'' (mk_subscription alice ''u2'') alice_and_bob_in_x =
     ([Log WARN ''User ID mismatch in subscription request''], alice_and_bob_in_x) \<and>
   broadcasts (fst (subscribe (calm 0) ''x'' (mk_subscription alice ''u2'') alice_and_bob_in_x)) = []"
proof -
  have 1: "user (ws (mk_subscription alice ''u2'')) = Some (mk_token ''u1'')"
    and 2: "WebSocketAuthToken.userId (mk_token ''u1'') \<noteq> userId (mk_subscription alice ''u2'')"
    by (simp_all add: example_defs)
  show ?thesis
    using subscribe_mismatch_rejected[OF 1 2, of "calm 0" "''x''" alice_and_bob_in_x] 1 2
    by simp
qed

text \<open>
  Claim C4. Whatever the first call did, a second \<^verbatim>\<open>subscribe\<close> with the same connection,
  userId and channel right after it changes no table, calls \<^verbatim>\<open>broadcast\<close> not at all and
  sends nothing. When the first call is admitted and new (the identity check passes and the
  channel holds no subscription of that connection and userId yet), the channel then holds
  exactly one subscription of the pair, and the two calls together make exactly one call of
  \<^verbatim>\<open>broadcast\<close>: the \<^verbatim>\<open>MEMBER_STATUS_UPDATE\<close> with \<^verbatim>\<open>isOnline: true\<close> for that userId.
\<close>

theorem subscribe_twice:
  "let m1 = snd (subscribe e c s m) in
     snd (subscribe e' c s m1) = m1 \<and> broadcasts (fst (subscribe e' c s m1)) = [] \<and>
     sends (fst (subscribe e' c s m1)) = [] \<and>
     (\<not> userIdMismatch s \<and> find (sameSubscriber s) (subscribers m c) = None \<longrightarrow>
        filter (sameSubscriber s) (subscribers m1 c) = [s] \<and>
        broadcasts (fst (subscribe e c s m) @ fst (subscribe e' c s m1)) =
          [(c, MEMBER_STATUS_UPDATE, StatusUpdate_json (userId s) True (online m1 c))])"
proof (cases "userIdMismatch s")
  case True
  then show ?thesis by (simp add: subscribe_rejected)
next
  case ok: False
  show ?thesis
  proof (cases "find (sameSubscriber s) (subscribers m c)")
    case None
    have dup: "find (sameSubscriber s) (subscribers (subscribed c s m) c) = Some s"
      using None by (simp add: subscribers_subscribed find_snoc sameSubscriber_def)
    show ?thesis
      using ok None
      by (simp add: subscribe_new subscribe_duplicate[OF ok dup] broadcasts_append
            broadcasts_broadcast subscribers_subscribed find_None_filter sameSubscriber_def
            online_subscribed)
  next
    case (Some x)
    then show ?thesis using ok by (simp add: subscribe_duplicate)
  qed
qed

theorem subscribe_twice_witness:
  "\<not> userIdMismatch (mk_subscription carol ''u3'') \<and>
   find (sameSubscriber (mk_subscription carol ''u3'')) (subscribers alice_and_bob_in_x ''x'') = None \<and>
   filter (sameSubscriber (mk_subscription carol ''u3''))
     (subscribers (snd (subscribe (calm 0) ''x'' (mk_subscription carol ''u3'') alice_and_bob_in_x))
        ''x'') = [mk_subscription carol ''u3''] \<and>
   broadcasts (fst (subscribe (calm 0) ''x'' (mk_subscription carol ''u3'') alice_and_bob_in_x)
      @ fst (subscribe (calm 1) ''x'' (mk_subscription carol ''u3'')
               (snd (subscribe (calm 0) ''x'' (mk_subscription carol ''u3'') alice_and_bob_in_x)))) =
     [(''x'', MEMBER_STATUS_UPDATE, StatusUpdate_json ''u3'' True [''u1'', ''u2'', ''u3''])]"
proof -
  have ok: "\<not> userIdMismatch (mk_subscription carol ''u3'')"
    by (simp add: example_defs userIdMismatch_def)
  have new: "find (sameSubscriber (mk_subscription carol ''u3''))
               (subscribers alice_and_bob_in_x ''x'') = None"
    by (simp add: example_defs op_defs)
  have on: "online (snd (subscribe (calm 0) ''x'' (mk_subscription carol ''u3'')
               alice_and_bob_in_x)) ''x'' = [''u1'', ''u2'', ''u3'']"
    by (simp add: subscribe_new[OF ok new] online_subscribed)
       (simp add: example_defs op_defs)
  show ?thesis
    using subscribe_twice[of "calm 0" "''x''" "mk_subscription carol ''u3''" alice_and_bob_in_x
            "calm 1"] ok new on
    by (simp add: Let_def mk_subscription_def)
qed

section \<open>Typing indicators\<close>

lemma typingCleanup_users_kept:
  "snd (typingCleanup_users e m c tm) = filter (\<lambda>x. \<not> expired e x) tm"
  by (induction tm) (auto simp: expired_def case_prod_beta)

lemma typingCleanup_users_broadcasts:
  "broadcasts (fst (typingCleanup_users e m c tm)) = map (eviction c) (filter (expired e) tm)"
  by (induction tm) (auto simp: expired_def eviction_def broadcasts_append broadcasts_broadcast case_prod_beta)

lemma typingCleanup_channels_kept:
  "snd (typingCleanup_channels e m tus) = filter (\<lambda>x. snd x \<noteq> []) (map (swept e) tus)"
  by (induction tus) (auto simp: case_prod_beta typingCleanup_users_kept swept_def)

lemma typingCleanup_channels_broadcasts:
  "broadcasts (fst (typingCleanup_channels e m tus)) =
     concat (map (\<lambda>x. map (eviction (fst x)) (filter (expired e) (snd x))) tus)"
  by (induction tus) (auto simp: case_prod_beta typingCleanup_users_broadcasts broadcasts_append)

lemma typingCleanup_broadcasts:
  "broadcasts (fst (typingCleanup e m)) =
     concat (map (\<lambda>x. map (eviction (fst x)) (filter (expired e) (snd x))) (typingUsers m))"
  by (simp add: typingCleanup_def case_prod_beta typingCleanup_channels_broadcasts)

lemma typingCleanup_state:
  "snd (typingCleanup e m) =
     m\<lparr>typingUsers := filter (\<lambda>x. snd x \<noteq> []) (map (swept e) (typingUsers m))\<rparr>"
  by (simp add: typingCleanup_def case_prod_beta typingCleanup_channels_kept)

lemma payloads_append: "payloads ev (xs @ ys) = payloads ev xs @ payloads ev ys"
  by (simp add: payloads_def broadcasts_append)

lemma sweep_keys:
  "d \<in> set (payloads MEMBER_STOP_TYPING (fst (typingCleanup e m))) \<Longrightarrow> payload_keys d = [''userId'', ''username'']"
  by (auto simp: payloads_def typingCleanup_broadcasts eviction_def StopTypingSweep_json_def)

lemma broadcasts_unsubscribe: "broadcasts (fst (unsubscribe c w m)) = []"
  by (simp add: unsubscribe_def Let_def broadcasts_append case_prod_beta split: option.splits)

lemma handleTyping_stop_broadcasts:
  "broadcasts (fst (handleTyping e c uid uname False m)) =
     [(c, MEMBER_STOP_TYPING, StopTyping_json uid uname
          (AList.delete uid (case map_of (typingUsers m) c of None \<Rightarrow> [] | Some tm \<Rightarrow> tm)))]"
  by (simp add: handleTyping_def Let_def broadcasts_append broadcasts_broadcast case_prod_beta split: option.splits)

lemma closure_channel_payloads:
  "d \<in> set (payloads MEMBER_STOP_TYPING (fst (closure_channel e w uid c m))) \<Longrightarrow>
   payload_keys d = [''userId'', ''username'', ''remainingTypingUsers'']"
  by (auto simp: closure_channel_def updateOnlineStatus_def Let_def payloads_def broadcasts_append
        broadcasts_broadcast broadcasts_unsubscribe StopTyping_json_def case_prod_beta
        split: option.splits if_splits)

lemma closure_forEach_payloads:
  "d \<in> set (payloads MEMBER_STOP_TYPING (fst (closure_forEach e w uid cs m))) \<Longrightarrow>
   payload_keys d = [''userId'', ''username'', ''remainingTypingUsers'']"
proof (induction cs arbitrary: m)
  case Nil then show ?case by (simp add: payloads_def)
next
  case (Cons c cs)
  obtain effs m' where st: "closure_channel e w uid c m = (effs, m')" by (cases "closure_channel e w uid c m")
  obtain effs' m'' where rest: "closure_forEach e w uid cs m' = (effs', m'')" by (cases "closure_forEach e w uid cs m'")
  from Cons.prems have "d \<in> set (payloads MEMBER_STOP_TYPING effs) \<or> d \<in> set (payloads MEMBER_STOP_TYPING effs')"
    by (simp add: st rest payloads_append)
  then show ?case
    using closure_channel_payloads[of d e w uid c m] Cons.IH[of m'] by (auto simp: st rest)
qed

lemma closure_payloads:
  "d \<in> set (payloads MEMBER_STOP_TYPING (fst (handleWebSocketClosure e w m))) \<Longrightarrow>
   payload_keys d = [''userId'', ''username'', ''remainingTypingUsers'']"
  using closure_forEach_payloads[of d e w _ _ m]
  by (auto simp: handleWebSocketClosure_def payloads_append case_prod_beta split: option.splits if_splits)
     (simp_all add: payloads_def)

lemma typingUsers_updateOnlineStatus: "typingUsers (snd (updateOnlineStatus e c uid b m)) = typingUsers m"
  by (simp add: updateOnlineStatus_def Let_def)

lemma typingUsers_subscribe: "typingUsers (snd (subscribe e c s m)) = typingUsers m"
  by (simp add: subscribe_def Let_def case_prod_beta typingUsers_updateOnlineStatus split: option.splits)

lemma typingUsers_unsubscribe: "typingUsers (snd (unsubscribe c w m)) = typingUsers m"
  by (simp add: unsubscribe_def Let_def case_prod_beta split: option.splits)

lemma typingUsers_cleanup: "typingUsers (snd (cleanupInactiveConnections e m)) = typingUsers m"
  by (simp add: cleanupInactiveConnections_def case_prod_beta)

lemma set_update_cases: "x \<in> set (AList.update k v al) \<Longrightarrow> x = (k, v) \<or> x \<in> set al"
  by (induction al) (auto split: if_splits)

lemma typing_wf_update:
  assumes "typing_wf m" "distinct (map fst tm)"
  shows "typing_wf (m\<lparr>typingUsers := AList.update c tm (typingUsers m)\<rparr>)"
  using assms by (auto simp: typing_wf_def distinct_update dest!: set_update_cases)

lemma typing_wf_lookup:
  "typing_wf m \<Longrightarrow> map_of (typingUsers m) c = Some tm \<Longrightarrow> distinct (map fst tm)"
  by (auto simp: typing_wf_def dest!: map_of_SomeD)

lemma typing_wf_frame: "typingUsers m' = typingUsers m \<Longrightarrow> typing_wf m \<Longrightarrow> typing_wf m'"
  by (simp add: typing_wf_def)

lemma typing_wf_handleTyping: "typing_wf m \<Longrightarrow> typing_wf (snd (handleTyping e c uid uname b m))"
  by (cases "map_of (typingUsers m) c")
     (auto simp: handleTyping_def Let_def intro!: typing_wf_update distinct_update distinct_delete
        dest: typing_wf_lookup)

lemma typing_wf_typingCleanup: "typing_wf m \<Longrightarrow> typing_wf (snd (typingCleanup e m))"
  by (auto simp: typingCleanup_state typing_wf_def swept_def distinct_map_filter comp_def)

lemma typing_wf_closure_channel: "typing_wf m \<Longrightarrow> typing_wf (snd (closure_channel e w uid c m))"
proof -
  assume wf: "typing_wf m"
  let ?m1 = "snd (updateOnlineStatus e c uid False m)"
  have wf1: "typing_wf ?m1" using wf typingUsers_updateOnlineStatus by (rule typing_wf_frame[rotated])
  show ?thesis
    using wf1 typing_wf_lookup[OF wf1]
    by (auto simp: closure_channel_def case_prod_beta Let_def typingUsers_unsubscribe
          intro!: typing_wf_frame[OF typingUsers_unsubscribe] typing_wf_update distinct_delete
          split: option.splits)
qed

lemma typing_wf_closure_forEach: "typing_wf m \<Longrightarrow> typing_wf (snd (closure_forEach e w uid cs m))"
  by (induction cs arbitrary: m) (auto simp: case_prod_beta typing_wf_closure_channel)

lemma typing_wf_closure: "typing_wf m \<Longrightarrow> typing_wf (snd (handleWebSocketClosure e w m))"
  using typing_wf_closure_forEach[of m e w]
  by (auto simp: handleWebSocketClosure_def case_prod_beta typing_wf_def split: option.splits)

lemma typing_wf_exec: "typing_wf m \<Longrightarrow> typing_wf (snd (exec e x m))"
  by (cases x)
     (auto simp: typing_wf_handleTyping typing_wf_typingCleanup typing_wf_closure
        intro: typing_wf_frame[OF typingUsers_subscribe] typing_wf_frame[OF typingUsers_unsubscribe]
               typing_wf_frame[OF typingUsers_cleanup])

lemma typing_wf_run: "typing_wf m \<Longrightarrow> typing_wf (run steps m)"
  by (induction steps arbitrary: m) (auto simp: typing_wf_exec)

lemma typing_wf_reachable: "typing_wf (run steps new_ChannelManager)"
  by (rule typing_wf_run) (simp add: typing_wf_def new_ChannelManager_def)

lemma map_of_filter_distinct:
  "distinct (map fst al) \<Longrightarrow>
   map_of (filter P al) k =
     (case map_of al k of None \<Rightarrow> None | Some v \<Rightarrow> if P (k, v) then Some v else None)"
proof (induction al)
  case Nil then show ?case by simp
next
  case (Cons a al)
  then have "map_of al (fst a) = None" by (simp add: map_of_eq_None_iff)
  with Cons show ?case by (cases a) (auto split: option.splits)
qed

lemma map_of_map_swept:
  "map_of (map (swept e) al) c = map_option (filter (\<lambda>y. \<not> expired e y)) (map_of al c)"
  by (induction al) (auto simp: swept_def)

lemma typingEntry_typingCleanup:
  assumes "typing_wf m"
  shows "typingEntry (snd (typingCleanup e m)) c uid =
     (case typingEntry m c uid of
        None \<Rightarrow> None
      | Some u \<Rightarrow> if expired e (uid, u) then None else Some u)"
proof -
  have d1: "distinct (map fst (map (swept e) (typingUsers m)))"
    using assms by (simp add: typing_wf_def comp_def swept_def)
  show ?thesis
  proof (cases "map_of (typingUsers m) c")
    case None
    then show ?thesis
      by (simp add: typingEntry_def typingCleanup_state map_of_filter_distinct[OF d1] map_of_map_swept)
  next
    case (Some tm)
    have d2: "distinct (map fst tm)" using assms Some by (rule typing_wf_lookup)
    have keep: "filter (\<lambda>y. \<not> expired e y) tm \<noteq> []"
      if "map_of tm uid = Some v" "\<not> expired e (uid, v)" for v
      using that by (auto simp: filter_empty_conv dest!: map_of_SomeD)
    show ?thesis
      using Some keep
      by (simp add: typingEntry_def typingCleanup_state map_of_filter_distinct[OF d1]
            map_of_map_swept map_of_filter_distinct[OF d2] split: option.splits)
  qed
qed

lemma filter_channel_concat:
  "distinct (map fst al) \<Longrightarrow>
   filter (\<lambda>b. fst b = c \<and> Q b)
     (concat (map (\<lambda>x. map (eviction (fst x)) (g (snd x))) al)) =
   (case map_of al c of None \<Rightarrow> [] | Some tm \<Rightarrow> filter Q (map (eviction c) (g tm)))"
proof (induction al)
  case Nil then show ?case by simp
next
  case (Cons a al)
  then have no: "map_of al (fst a) = None" by (simp add: map_of_eq_None_iff)
  have other: "fst a \<noteq> c \<Longrightarrow> filter (\<lambda>b. fst b = c \<and> Q b) (map (eviction (fst a)) xs) = []" for xs
    by (induction xs) (auto simp: eviction_def)
  have same: "filter (\<lambda>b. fst b = c \<and> Q b) (map (eviction c) xs) = filter Q (map (eviction c) xs)" for xs
    by (induction xs) (auto simp: eviction_def)
  show ?case
  proof (cases "fst a = c")
    case True
    then show ?thesis using Cons no same[of "g (snd a)"] by (cases a) auto
  next
    case False
    then show ?thesis using Cons other by (cases a) auto
  qed
qed

lemma filter_user_evictions:
  "distinct (map fst tm) \<Longrightarrow>
   filter (\<lambda>b. fst (snd b) = MEMBER_STOP_TYPING \<and>
               json_field ''userId'' (snd (snd b)) = Some (JString uid))
     (map (eviction c) (filter (expired e) tm)) =
   (case map_of tm uid of
      None \<Rightarrow> []
    | Some u \<Rightarrow> if expired e (uid, u) then [eviction c (uid, u)] else [])"
proof (induction tm)
  case Nil then show ?case by simp
next
  case (Cons a tm)
  then have no: "map_of tm (fst a) = None" by (simp add: map_of_eq_None_iff)
  with Cons show ?case
    by (cases a) (auto simp: eviction_def StopTypingSweep_json_def expired_def split: option.splits)
qed

lemma stopTypingFor_typingCleanup:
  assumes "typing_wf m"
  shows "stopTypingFor c uid (fst (typingCleanup e m)) =
     (case typingEntry m c uid of
        None \<Rightarrow> []
      | Some u \<Rightarrow> if expired e (uid, u) then [eviction c (uid, u)] else [])"
proof -
  have d1: "distinct (map fst (typingUsers m))" using assms by (simp add: typing_wf_def)
  show ?thesis
  proof (cases "map_of (typingUsers m) c")
    case None
    then show ?thesis
      by (simp add: stopTypingFor_def typingCleanup_broadcasts typingEntry_def
            filter_channel_concat[OF d1, where g = "filter (expired e)"])
  next
    case (Some tm)
    have d2: "distinct (map fst tm)" using assms Some by (rule typing_wf_lookup)
    show ?thesis
      using Some
      by (simp add: stopTypingFor_def typingCleanup_broadcasts typingEntry_def
            filter_channel_concat[OF d1, where g = "filter (expired e)"] filter_user_evictions[OF d2])
  qed
qed

lemma typingUsers_handleTyping:
  "typingUsers (snd (handleTyping e c uid uname True m)) =
     AList.update c
       (AList.update uid \<lparr>TypingUser.userId = uid, username = uname, timestamp = now e\<rparr>
          (case map_of (typingUsers m) c of None \<Rightarrow> [] | Some tm \<Rightarrow> tm))
       (typingUsers m)"
  by (simp add: handleTyping_def Let_def case_prod_beta split: option.splits)

lemma typingEntry_handleTyping:
  "typingEntry (snd (handleTyping e c uid uname True m)) c uid =
     Some \<lparr>TypingUser.userId = uid, username = uname, timestamp = now e\<rparr>"
  by (simp add: handleTyping_def typingEntry_def Let_def case_prod_beta update_conv' split: option.splits)

text \<open>
  Claim C7. In a manager reached by any sequence of calls, take a typing entry of user
  \<open>uid\<close> in channel \<open>c\<close> with timestamp \<open>timestamp u\<close>. A sweep at a time when the entry's age
  is at most \<open>TYPING_TIMEOUT\<close> (3000 ms, three ticks of the one-second sweep) keeps the entry
  and announces nothing for it. The first sweep at a time when its age exceeds the threshold
  removes it, and that sweep calls \<^verbatim>\<open>broadcast\<close> exactly once with \<^verbatim>\<open>MEMBER_STOP_TYPING\<close>
  for that user in that channel. \<^verbatim>\<open>handleTyping(.., true)\<close> stamps the entry with the time
  of the call.
\<close>

theorem typing_entry_expires:
  assumes "typingEntry (run steps new_ChannelManager) c uid = Some u"
  shows "(now e - timestamp u \<le> TYPING_TIMEOUT \<longrightarrow>
            typingEntry (snd (typingCleanup e (run steps new_ChannelManager))) c uid = Some u \<and>
            stopTypingFor c uid (fst (typingCleanup e (run steps new_ChannelManager))) = []) \<and>
         (now e - timestamp u > TYPING_TIMEOUT \<longrightarrow>
            typingEntry (snd (typingCleanup e (run steps new_ChannelManager))) c uid = None \<and>
            stopTypingFor c uid (fst (typingCleanup e (run steps new_ChannelManager))) =
              [(c, MEMBER_STOP_TYPING, StopTypingSweep_json uid (username u))]) \<and>
         typingEntry (snd (handleTyping e' c' uid' uname True m)) c' uid' =
           Some \<lparr>TypingUser.userId = uid', username = uname, timestamp = now e'\<rparr>"
  using assms
  by (simp add: typingEntry_typingCleanup[OF typing_wf_reachable]
        stopTypingFor_typingCleanup[OF typing_wf_reachable] expired_def eviction_def
        typingEntry_handleTyping)

text \<open>
  The scenario of the specification, one time unit being a second: the entry is made at
  \<open>t = 0\<close>, the sweeps at \<open>t = 1, 2, 3\<close> keep it, and the sweep at \<open>t = 4\<close> removes it with one
  announcement.
\<close>

theorem typing_entry_expires_witness:
  "typingEntry alice_typing_in_a ''a'' ''u1'' =
     Some \<lparr>TypingUser.userId = ''u1'', username = ''Alice'', timestamp = 0\<rparr> \<and>
   typingEntry alice_typing_swept_thrice ''a'' ''u1'' =
     Some \<lparr>TypingUser.userId = ''u1'', username = ''Alice'', timestamp = 0\<rparr> \<and>
   typingEntry (snd (typingCleanup (calm 4000) alice_typing_swept_thrice)) ''a'' ''u1'' = None \<and>
   stopTypingFor ''a'' ''u1'' (fst (typingCleanup (calm 4000) alice_typing_swept_thrice)) =
     [(''a'', MEMBER_STOP_TYPING, StopTypingSweep_json ''u1'' ''Alice'')]"
proof -
  let ?u = "\<lparr>TypingUser.userId = ''u1'', username = ''Alice'', timestamp = 0\<rparr>"
  let ?steps = "[(calm 0, Subscribe ''a'' (mk_subscription alice ''u1'')),
          (calm 0, Subscribe ''b'' (mk_subscription alice ''u1'')),
          (calm 0, Typing ''a'' ''u1'' ''Alice'' True),
          (calm 1000, TypingSweep), (calm 2000, TypingSweep), (calm 3000, TypingSweep)]"
  have tu: "typingUsers alice_typing_in_a = [(''a'', [(''u1'', ?u)])]"
    by (simp add: alice_typing_in_a_def typingUsers_handleTyping typingUsers_subscribe)
       (simp add: calm_def world_def new_ChannelManager_def)
  have tu3: "typingUsers alice_typing_swept_thrice = [(''a'', [(''u1'', ?u)])]"
    by (simp add: alice_typing_swept_thrice_def typingCleanup_state tu swept_def expired_def
          TYPING_TIMEOUT_def calm_def world_def)
  have r: "alice_typing_swept_thrice = run ?steps new_ChannelManager"
    by (simp add: alice_typing_swept_thrice_def alice_typing_in_a_def)
  have entry: "typingEntry (run ?steps new_ChannelManager) ''a'' ''u1'' = Some ?u"
    using tu3 by (simp add: r typingEntry_def)
  have late: "now (calm 4000) - timestamp ?u > TYPING_TIMEOUT"
    by (simp add: calm_def world_def TYPING_TIMEOUT_def)
  show ?thesis
    using typing_entry_expires[OF entry, of "calm 4000"] late tu tu3
    by (simp add: r typingEntry_def)
qed

text \<open>
  Claim C10. Every \<^verbatim>\<open>MEMBER_STOP_TYPING\<close> payload that the typing sweep broadcasts has
  exactly the fields \<^verbatim>\<open>userId\<close> and \<^verbatim>\<open>username\<close>; the one that an explicit stop-typing signal
  broadcasts, and every one that connection teardown broadcasts, has the fields \<^verbatim>\<open>userId\<close>,
  \<^verbatim>\<open>username\<close> and \<^verbatim>\<open>remainingTypingUsers\<close>.
\<close>

theorem stop_typing_payload_fields:
  "(\<forall>d\<in>set (payloads MEMBER_STOP_TYPING (fst (typingCleanup e m))).
      payload_keys d = [''userId'', ''username'']) \<and>
   map payload_keys (payloads MEMBER_STOP_TYPING (fst (handleTyping e c uid uname False m))) =
     [[''userId'', ''username'', ''remainingTypingUsers'']] \<and>
   (\<forall>d\<in>set (payloads MEMBER_STOP_TYPING (fst (handleWebSocketClosure e w m))).
      payload_keys d = [''userId'', ''username'', ''remainingTypingUsers''])"
  using sweep_keys[of _ e m] closure_payloads[of _ e w m]
  by (simp add: handleTyping_stop_broadcasts payloads_def StopTyping_json_def)

theorem stop_typing_payload_fields_witness:
  "payloads MEMBER_STOP_TYPING (fst (typingCleanup (calm 4000) alice_typing_in_a)) =
     [StopTypingSweep_json ''u1'' ''Alice''] \<and>
   payload_keys (StopTypingSweep_json ''u1'' ''Alice'') = [''userId'', ''username''] \<and>
   payloads MEMBER_STOP_TYPING (fst (handleWebSocketClosure (calm 4000) alice alice_typing_in_a)) =
     [StopTyping_json ''u1'' ''Alice'' []] \<and>
   payload_keys (StopTyping_json ''u1'' ''Alice'' []) =
     [''userId'', ''username'', ''remainingTypingUsers'']"
proof -
  have tu: "typingUsers alice_typing_in_a =
      [(''a'', [(''u1'', \<lparr>TypingUser.userId = ''u1'', username = ''Alice'', timestamp = 0\<rparr>)])]"
    by (simp add: alice_typing_in_a_def typingUsers_handleTyping typingUsers_subscribe)
       (simp add: calm_def world_def new_ChannelManager_def)
  have p1: "payloads MEMBER_STOP_TYPING (fst (typingCleanup (calm 4000) alice_typing_in_a)) =
     [StopTypingSweep_json ''u1'' ''Alice'']"
    by (simp add: payloads_def typingCleanup_broadcasts tu expired_def eviction_def
          TYPING_TIMEOUT_def calm_def world_def)
  have p2: "payloads MEMBER_STOP_TYPING
       (fst (handleWebSocketClosure (calm 4000) alice alice_typing_in_a)) =
     [StopTyping_json ''u1'' ''Alice'' []]"
    by (simp add: example_defs alice_typing_in_a_def op_defs handleTyping_def handleWebSocketClosure_def
          closure_channel_def payloads_def StopTyping_json_def)
  show ?thesis
    using stop_typing_payload_fields[of "calm 4000" alice_typing_in_a _ _ _ alice] p1 p2
    by simp
qed

section \<open>\<^verbatim>\<open>cleanupInactiveConnections\<close>\<close>

lemma cleanup_subscribers_kept:
  "fst (cleanup_subscribers e c subs w2c n) = filter (isOpen e) subs"
  by (induction subs arbitrary: w2c n) (auto simp: isOpen_def case_prod_beta)

lemma cleanup_channels_kept:
  "fst (snd (cleanup_channels e chans w2c n)) = filter (\<lambda>x. snd x \<noteq> []) (map (cleaned e) chans)"
  by (induction chans arbitrary: w2c n) (auto simp: case_prod_beta cleanup_subscribers_kept cleaned_def)

lemma cleanup_subscribers_unindexed_mono:
  "unindexed w2c w x \<Longrightarrow> unindexed (fst (snd (cleanup_subscribers e c subs w2c n))) w x"
proof (induction subs arbitrary: w2c n)
  case Nil then show ?case by simp
next
  case (Cons s subs)
  show ?case
  proof (cases "readyState e (ws s) = OPEN")
    case True
    then show ?thesis using Cons by (simp add: case_prod_beta)
  next
    case False
    let ?w2c = "(case w2c (ws s) of None \<Rightarrow> w2c
           | Some cs \<Rightarrow> (if Set_delete c cs = [] then w2c(ws s := None)
                else w2c(ws s \<mapsto> Set_delete c cs)))"
    have "unindexed ?w2c w x"
      using Cons.prems by (auto simp: unindexed_def Set_delete_def split: option.splits)
    then show ?thesis using False Cons.IH[of ?w2c] by simp
  qed
qed

lemma cleanup_subscribers_unindexed:
  "s \<in> set subs \<Longrightarrow> \<not> isOpen e s \<Longrightarrow>
   unindexed (fst (snd (cleanup_subscribers e c subs w2c n))) (ws s) c"
proof (induction subs arbitrary: w2c n)
  case Nil then show ?case by simp
next
  case (Cons a subs)
  let ?w2c = "(case w2c (ws a) of None \<Rightarrow> w2c
           | Some cs \<Rightarrow> (if Set_delete c cs = [] then w2c(ws a := None)
                else w2c(ws a \<mapsto> Set_delete c cs)))"
  show ?case
  proof (cases "s = a")
    case True
    have "unindexed ?w2c (ws a) c"
      by (auto simp: unindexed_def Set_delete_def split: option.splits)
    then show ?thesis
      using True Cons.prems cleanup_subscribers_unindexed_mono[of ?w2c "ws a" c e c subs]
      by (simp add: isOpen_def)
  next
    case False
    then show ?thesis using Cons by (auto simp: case_prod_beta)
  qed
qed

lemma cleanup_channels_unindexed_mono:
  "unindexed w2c w x \<Longrightarrow> unindexed (fst (snd (snd (cleanup_channels e chans w2c n)))) w x"
  by (induction chans arbitrary: w2c n)
     (auto simp: case_prod_beta cleanup_subscribers_unindexed_mono)

lemma cleanup_channels_unindexed:
  "(c, subs) \<in> set chans \<Longrightarrow> s \<in> set subs \<Longrightarrow> \<not> isOpen e s \<Longrightarrow>
   unindexed (fst (snd (snd (cleanup_channels e chans w2c n)))) (ws s) c"
proof (induction chans arbitrary: w2c n)
  case Nil then show ?case by simp
next
  case (Cons a chans)
  show ?case
  proof (cases "a = (c, subs)")
    case True
    then show ?thesis
      using Cons.prems cleanup_subscribers_unindexed[of s subs e c w2c n]
      by (auto simp: case_prod_beta intro!: cleanup_channels_unindexed_mono)
  next
    case False
    then show ?thesis using Cons by (cases a) (auto simp: case_prod_beta)
  qed
qed

lemma cleanup_state:
  "snd (cleanupInactiveConnections e m) =
     m\<lparr>channels := filter (\<lambda>x. snd x \<noteq> []) (map (cleaned e) (channels m)),
       wsToChannels := fst (snd (snd (cleanup_channels e (channels m) (wsToChannels m) 0)))\<rparr>"
  by (simp add: cleanupInactiveConnections_def case_prod_beta cleanup_channels_kept)

lemma wsToUser_updateOnlineStatus: "wsToUser (snd (updateOnlineStatus e c uid b m)) = wsToUser m"
  by (simp add: updateOnlineStatus_def Let_def)

lemma wsToUser_subscribe: "wsToUser m w = Some u \<Longrightarrow> wsToUser (snd (subscribe e c s m)) w \<noteq> None"
  by (auto simp: subscribe_def Let_def case_prod_beta wsToUser_updateOnlineStatus split: option.splits)

lemma wsToUser_handleTyping: "wsToUser (snd (handleTyping e c uid uname b m)) = wsToUser m"
  by (simp add: handleTyping_def Let_def case_prod_beta split: option.splits)

lemma wsToUser_kept:
  "wsToUser m w = Some u \<Longrightarrow> \<not> purges x \<Longrightarrow> wsToUser (snd (exec e x m)) w \<noteq> None"
  by (cases x) (auto simp: wsToUser_subscribe wsToUser_handleTyping typingCleanup_state cleanup_state)

text \<open>
  Claim C9. \<^verbatim>\<open>cleanupInactiveConnections\<close> keeps in every channel exactly the subscriptions
  whose connection is open and drops the channels left empty; for every subscription it
  removes, the channel is no longer in that connection's \<open>wsToChannels\<close> entry, and the entry
  is deleted rather than left empty; \<open>wsToUser\<close> is the same map afterwards. No call other than
  \<^verbatim>\<open>unsubscribe\<close> and \<^verbatim>\<open>handleWebSocketClosure\<close> ever removes an entry of \<open>wsToUser\<close>.
\<close>

theorem cleanup_leaves_user_mapping:
  "channels (snd (cleanupInactiveConnections e m)) =
     filter (\<lambda>x. snd x \<noteq> []) (map (cleaned e) (channels m)) \<and>
   (\<forall>x\<in>set (channels m). \<forall>s\<in>set (snd x). readyState e (ws s) \<noteq> OPEN \<longrightarrow>
      fst x \<notin> set (subscribedChannels (snd (cleanupInactiveConnections e m)) (ws s)) \<and>
      wsToChannels (snd (cleanupInactiveConnections e m)) (ws s) \<noteq> Some []) \<and>
   wsToUser (snd (cleanupInactiveConnections e m)) = wsToUser m \<and>
   (wsToUser m w = Some u \<and> \<not> purges x \<longrightarrow> wsToUser (snd (exec e' x m)) w \<noteq> None)"
proof -
  have "fst x \<notin> set (subscribedChannels (snd (cleanupInactiveConnections e m)) (ws s)) \<and>
        wsToChannels (snd (cleanupInactiveConnections e m)) (ws s) \<noteq> Some []"
    if "x \<in> set (channels m)" "s \<in> set (snd x)" "readyState e (ws s) \<noteq> OPEN" for x s
    using that cleanup_channels_unindexed[of "fst x" "snd x" "channels m" s e "wsToChannels m" 0]
    by (auto simp: cleanup_state unindexed_def subscribedChannels_def isOpen_def
             split: option.splits)
  then show ?thesis
    using wsToUser_kept[of m w u x e'] by (simp add: cleanup_state)
qed

text \<open>
  A connection that the cleanup evicts completely keeps its userId mapping, and a later
  \<^verbatim>\<open>handleWebSocketClosure\<close> for it finds no \<open>wsToChannels\<close> entry and leaves the mapping
  in place.
\<close>

theorem cleanup_leaves_user_mapping_witness:
  "map ws (subscribers alice_and_bob_in_x ''x'') = [alice, bob] \<and>
   readyState alice_closed alice \<noteq> OPEN \<and>
   wsToUser alice_and_bob_in_x alice = Some ''u1'' \<and> \<not> purges Cleanup \<and>
   map ws (subscribers (snd (cleanupInactiveConnections alice_closed alice_and_bob_in_x)) ''x'') =
     [bob] \<and>
   wsToChannels (snd (cleanupInactiveConnections alice_closed alice_and_bob_in_x)) alice = None \<and>
   wsToUser (snd (cleanupInactiveConnections alice_closed alice_and_bob_in_x)) alice = Some ''u1'' \<and>
   wsToUser (snd (handleWebSocketClosure (calm 0) alice
       (snd (cleanupInactiveConnections alice_closed alice_and_bob_in_x)))) alice = Some ''u1''"
proof -
  let ?m' = "snd (cleanupInactiveConnections alice_closed alice_and_bob_in_x)"
  note T = cleanup_leaves_user_mapping[of alice_closed alice_and_bob_in_x alice "''u1''" Cleanup alice_closed]
  have ch: "channels alice_and_bob_in_x =
      [(''x'', [mk_subscription alice ''u1'', mk_subscription bob ''u2''])]"
    and w2c: "wsToChannels alice_and_bob_in_x alice = Some [''x'']"
    and w2u: "wsToUser alice_and_bob_in_x alice = Some ''u1''"
    by (simp_all add: example_defs alice_closed_def op_defs)
  have closed: "readyState alice_closed alice \<noteq> OPEN"
    and bob_open: "isOpen alice_closed (mk_subscription bob ''u2'')"
    and alice_not: "\<not> isOpen alice_closed (mk_subscription alice ''u1'')"
    and wa: "ws (mk_subscription alice ''u1'') = alice"
    and wb: "ws (mk_subscription bob ''u2'') = bob"
    by (simp_all add: example_defs alice_closed_def isOpen_def)
  have kept: "channels ?m' = [(''x'', [mk_subscription bob ''u2''])]"
    using T[THEN conjunct1] by (simp add: ch cleaned_def bob_open alice_not)
  have user: "wsToUser ?m' alice = Some ''u1''"
    using T[THEN conjunct2, THEN conjunct2, THEN conjunct1] w2u by simp
  have gone: "wsToChannels ?m' alice = None"
    by (simp add: cleanup_state ch wa wb w2c closed bob_open[unfolded isOpen_def wb] Set_delete_def)
  have noop: "handleWebSocketClosure (calm 0) alice ?m' = ([], ?m')"
    using gone by (simp add: handleWebSocketClosure_def)
  show ?thesis
    by (simp only: noop snd_conv user gone kept subscribers_def) (simp add: ch subscribers_def wa wb w2u closed)
qed

section \<open>Consistency of the indexes and of presence\<close>

lemma subscribers_subscribed_if:
  "subscribers (subscribed c s m) c' = (if c' = c then subscribers m c @ [s] else subscribers m c')"
  by (simp add: subscribers_def subscribed_def update_conv')

lemma subscribedChannels_subscribed:
  "subscribedChannels (subscribed c s m) w =
     (if w = ws s then Set_add c (subscribedChannels m w) else subscribedChannels m w)"
  by (simp add: subscribedChannels_def subscribed_def)

lemma online_subscribed_if:
  "online (subscribed c s m) c' = (if c' = c then Set_add (userId s) (online m c) else online m c')"
  by (simp add: online_def subscribed_def)

lemma wsToUser_subscribed: "wsToUser (subscribed c s m) = (wsToUser m)(ws s \<mapsto> userId s)"
  by (simp add: subscribed_def)

lemma subscribe_cases:
  "snd (subscribe e c s m) = m \<or>
   (\<not> userIdMismatch s \<and> find (sameSubscriber s) (subscribers m c) = None \<and>
    snd (subscribe e c s m) = subscribed c s m)"
proof (cases "userIdMismatch s")
  case True then show ?thesis by (simp add: subscribe_rejected)
next
  case False
  then show ?thesis
    by (cases "find (sameSubscriber s) (subscribers m c)")
       (simp_all add: subscribe_new subscribe_duplicate)
qed

lemma ws_notin_image: "ws a \<notin> ws ` set subs \<Longrightarrow> s \<in> set subs \<Longrightarrow> ws s \<noteq> ws a"
  by (metis imageI)

lemma unsubscribe_loop_distinct:
  "distinct (map ws subs) \<Longrightarrow> snd (unsubscribe_loop w subs) = filter (\<lambda>s. ws s \<noteq> w) subs"
proof (induction subs)
  case Nil then show ?case by simp
next
  case (Cons a subs)
  from Cons.prems have "ws a \<notin> ws ` set subs" by simp
  then have "\<forall>s\<in>set subs. ws s \<noteq> ws a" using ws_notin_image by blast
  then have "ws a = w \<Longrightarrow> filter (\<lambda>s. ws s \<noteq> w) subs = subs"
    by (simp add: filter_id_conv)
  with Cons show ?case by (auto simp: case_prod_beta)
qed

lemma subscribers_unsubscribe:
  "subscribers (snd (unsubscribe c w m)) c' =
     (if c' = c then snd (unsubscribe_loop w (subscribers m c)) else subscribers m c')"
  by (cases "map_of (channels m) c")
     (simp_all add: unsubscribe_def subscribers_def Let_def case_prod_beta update_conv' delete_conv'
        split: option.split)

lemma subscribedChannels_unsubscribe:
  "subscribedChannels (snd (unsubscribe c w m)) w' =
     (if w' = w \<and> map_of (channels m) c \<noteq> None then Set_delete c (subscribedChannels m w)
      else subscribedChannels m w')"
  by (cases "map_of (channels m) c")
     (simp_all add: unsubscribe_def subscribedChannels_def Let_def case_prod_beta Set_delete_def
        split: option.split)

lemma online_unsubscribe: "onlineUsers (snd (unsubscribe c w m)) = onlineUsers m"
  by (simp add: unsubscribe_def Let_def case_prod_beta split: option.splits)

lemma wsToUser_unsubscribe:
  "wsToUser (snd (unsubscribe c w m)) w' = Some u \<Longrightarrow> wsToUser m w' = Some u"
  by (cases "map_of (channels m) c")
     (simp_all add: unsubscribe_def Let_def case_prod_beta split: option.splits if_splits)

lemma core_inv_frame:
  "channels m' = channels m \<Longrightarrow> wsToChannels m' = wsToChannels m \<Longrightarrow> wsToUser m' = wsToUser m \<Longrightarrow>
   core_inv m \<Longrightarrow> core_inv m'"
  by (simp add: core_inv_def subscribers_def subscribedChannels_def)

lemma core_inv_index:
  "core_inv m \<Longrightarrow>
   (c \<in> set (subscribedChannels m w)) = (\<exists>s\<in>set (subscribers m c). ws s = w)"
  by (simp add: core_inv_def)

lemma core_inv_distinct: "core_inv m \<Longrightarrow> distinct (map ws (subscribers m c))"
  by (simp add: core_inv_def)

lemma core_inv_verified:
  "core_inv m \<Longrightarrow> s \<in> set (subscribers m c) \<Longrightarrow> verifiedUserId (ws s) = Some (userId s)"
  by (simp add: core_inv_def)

lemma core_inv_user: "core_inv m \<Longrightarrow> wsToUser m w = Some u \<Longrightarrow> verifiedUserId w = Some u"
  by (simp add: core_inv_def)

lemma set_Set_add: "set (Set_add x xs) = insert x (set xs)"
  by (auto simp: Set_add_def)

lemma set_Set_delete: "set (Set_delete x xs) = set xs - {x}"
  by (auto simp: Set_delete_def)

lemma verified_not_mismatch:
  "user (ws s) \<noteq> None \<Longrightarrow> \<not> userIdMismatch s \<Longrightarrow> verifiedUserId (ws s) = Some (userId s)"
  by (auto simp: userIdMismatch_def verifiedUserId_def split: option.splits)

lemma core_inv_subscribed:
  assumes inv: "core_inv m" and v: "user (ws s) \<noteq> None" and ok: "\<not> userIdMismatch s"
    and new: "find (sameSubscriber s) (subscribers m c) = None"
  shows "core_inv (subscribed c s m)"
proof -
  have vs: "verifiedUserId (ws s) = Some (userId s)" using v ok by (rule verified_not_mismatch)
  have "ws x \<noteq> ws s" if "x \<in> set (subscribers m c)" for x
  proof
    assume eq: "ws x = ws s"
    from inv that have "verifiedUserId (ws x) = Some (userId x)" by (rule core_inv_verified)
    with eq vs have "userId x = userId s" by simp
    with eq have "sameSubscriber s x" by (simp add: sameSubscriber_def)
    with new that show False by (auto simp: find_None_iff)
  qed
  then have fresh: "\<forall>x\<in>set (subscribers m c). ws x \<noteq> ws s" by blast
  have 1: "(\<exists>x\<in>set (subscribers (subscribed c s m) c'). ws x = w) \<longleftrightarrow>
           c' \<in> set (subscribedChannels (subscribed c s m) w)" for w c'
    by (auto simp: core_inv_index[OF inv] subscribers_subscribed_if subscribedChannels_subscribed
          set_Set_add)
  have 2: "distinct (map ws (subscribers (subscribed c s m) c'))" for c'
    using core_inv_distinct[OF inv, of c'] fresh
    by (auto simp: subscribers_subscribed_if image_iff)
  have 3: "\<forall>x\<in>set (subscribers (subscribed c s m) c'). verifiedUserId (ws x) = Some (userId x)" for c'
    using core_inv_verified[OF inv, of _ c'] vs by (auto simp: subscribers_subscribed_if)
  have 4: "wsToUser (subscribed c s m) w = Some u \<longrightarrow> verifiedUserId w = Some u" for w u
    using core_inv_user[OF inv, of w u] vs by (auto simp: wsToUser_subscribed)
  show ?thesis unfolding core_inv_def using 1 2 3 4 by blast
qed

lemma core_inv_subscribe:
  "core_inv m \<Longrightarrow> user (ws s) \<noteq> None \<Longrightarrow> core_inv (snd (subscribe e c s m))"
  using subscribe_cases[of e c s m] core_inv_subscribed[of m s c] by auto

lemma core_inv_unsubscribe:
  assumes inv: "core_inv m"
  shows "core_inv (snd (unsubscribe c w m))"
proof -
  let ?m = "snd (unsubscribe c w m)"
  have loop: "snd (unsubscribe_loop w (subscribers m c)) = filter (\<lambda>s. ws s \<noteq> w) (subscribers m c)"
    using core_inv_distinct[OF inv] by (simp add: unsubscribe_loop_distinct)
  have subs: "subscribers ?m c' =
      (if c' = c then filter (\<lambda>s. ws s \<noteq> w) (subscribers m c) else subscribers m c')" for c'
    by (simp add: subscribers_unsubscribe loop)
  have absent: "map_of (channels m) c = None \<Longrightarrow> c \<notin> set (subscribedChannels m w')" for w'
  proof -
    assume "map_of (channels m) c = None"
    then have "subscribers m c = []" by (simp add: subscribers_def)
    then show ?thesis by (simp add: core_inv_index[OF inv])
  qed
  have idx: "set (subscribedChannels ?m w') =
      (if w' = w then set (subscribedChannels m w) - {c} else set (subscribedChannels m w'))" for w'
    using absent[of w] by (auto simp: subscribedChannels_unsubscribe set_Set_delete)
  have 1: "(\<exists>x\<in>set (subscribers ?m c'). ws x = w') \<longleftrightarrow> c' \<in> set (subscribedChannels ?m w')" for w' c'
    by (auto simp: subs idx core_inv_index[OF inv])
  have 2: "distinct (map ws (subscribers ?m c'))" for c'
    using core_inv_distinct[OF inv] by (simp add: subs distinct_map_filter)
  have 3: "\<forall>x\<in>set (subscribers ?m c'). verifiedUserId (ws x) = Some (userId x)" for c'
    by (auto simp: subs intro: core_inv_verified[OF inv])
  have 4: "wsToUser ?m w' = Some u \<longrightarrow> verifiedUserId w' = Some u" for w' u
    using core_inv_user[OF inv] wsToUser_unsubscribe[of c w m w' u] by blast
  show ?thesis unfolding core_inv_def using 1 2 3 4 by blast
qed

lemma core_updateOnlineStatus:
  "channels (snd (updateOnlineStatus e c uid b m)) = channels m \<and>
   wsToChannels (snd (updateOnlineStatus e c uid b m)) = wsToChannels m \<and>
   wsToUser (snd (updateOnlineStatus e c uid b m)) = wsToUser m"
  by (simp add: updateOnlineStatus_def Let_def)

lemma closure_channel_state:
  "snd (closure_channel e w uid c m) = snd (unsubscribe c w (before_unsubscribe e uid c m))"
  by (simp add: closure_channel_def before_unsubscribe_def Let_def case_prod_beta split: option.splits)

lemma before_unsubscribe_core:
  "channels (before_unsubscribe e uid c m) = channels m \<and>
   wsToChannels (before_unsubscribe e uid c m) = wsToChannels m \<and>
   wsToUser (before_unsubscribe e uid c m) = wsToUser m"
  by (simp add: before_unsubscribe_def Let_def core_updateOnlineStatus split: option.splits)

lemma before_unsubscribe_online:
  "online (before_unsubscribe e uid c m) c' =
     (if c' = c then Set_delete uid (online m c) else online m c')"
  by (simp add: before_unsubscribe_def Let_def updateOnlineStatus_def online_def split: option.splits)

lemma before_unsubscribe_subscribers:
  "subscribers (before_unsubscribe e uid c m) = subscribers m"
  by (simp add: subscribers_def before_unsubscribe_core fun_eq_iff)

lemma before_unsubscribe_subscribedChannels:
  "subscribedChannels (before_unsubscribe e uid c m) = subscribedChannels m"
  by (simp add: subscribedChannels_def before_unsubscribe_core fun_eq_iff)

lemma core_inv_before_unsubscribe: "core_inv m \<Longrightarrow> core_inv (before_unsubscribe e uid c m)"
  using before_unsubscribe_core[of e uid c m] by (auto intro: core_inv_frame)

lemma core_inv_closure_channel: "core_inv m \<Longrightarrow> core_inv (snd (closure_channel e w uid c m))"
  by (simp add: closure_channel_state core_inv_unsubscribe core_inv_before_unsubscribe)

lemma closure_channel_unindexes:
  assumes "core_inv m"
  shows "set (subscribedChannels (snd (closure_channel e w uid c m)) w) \<subseteq>
           set (subscribedChannels m w) - {c}"
proof (cases "map_of (channels m) c")
  case None
  then have "subscribers m c = []" by (simp add: subscribers_def)
  then have "c \<notin> set (subscribedChannels m w)" by (simp add: core_inv_index[OF assms])
  then show ?thesis
    using None
    by (simp add: closure_channel_state subscribedChannels_unsubscribe before_unsubscribe_core
          before_unsubscribe_subscribedChannels)
next
  case (Some a)
  then show ?thesis
    by (simp add: closure_channel_state subscribedChannels_unsubscribe before_unsubscribe_core
          before_unsubscribe_subscribedChannels set_Set_delete)
qed

lemma closure_forEach_core:
  "core_inv m \<Longrightarrow>
   core_inv (snd (closure_forEach e w uid cs m)) \<and>
   set (subscribedChannels (snd (closure_forEach e w uid cs m)) w) \<subseteq>
     set (subscribedChannels m w) - set cs"
proof (induction cs arbitrary: m)
  case Nil then show ?case by simp
next
  case (Cons c cs)
  let ?m1 = "snd (closure_channel e w uid c m)"
  have inv1: "core_inv ?m1" using Cons.prems by (rule core_inv_closure_channel)
  have sub1: "set (subscribedChannels ?m1 w) \<subseteq> set (subscribedChannels m w) - {c}"
    using Cons.prems by (rule closure_channel_unindexes)
  show ?case using Cons.IH[OF inv1] sub1 by (auto simp: case_prod_beta)
qed

lemma core_inv_closure:
  assumes inv: "core_inv m"
  shows "core_inv (snd (handleWebSocketClosure e w m))"
proof (cases "\<exists>cs uid. wsToChannels m w = Some cs \<and> wsToUser m w = Some uid \<and> uid \<noteq> []")
  case False
  then have "snd (handleWebSocketClosure e w m) = m"
    by (auto simp: handleWebSocketClosure_def split: option.splits)
  then show ?thesis using inv by simp
next
  case True
  then obtain cs uid where c: "wsToChannels m w = Some cs" "wsToUser m w = Some uid" "uid \<noteq> []"
    by blast
  let ?m1 = "snd (closure_forEach e w uid cs m)"
  let ?m2 = "?m1\<lparr>wsToChannels := (wsToChannels ?m1)(w := None), wsToUser := (wsToUser ?m1)(w := None)\<rparr>"
  have st: "snd (handleWebSocketClosure e w m) = ?m2"
    using c by (simp add: handleWebSocketClosure_def case_prod_beta)
  have inv1: "core_inv ?m1" using closure_forEach_core[OF inv] by blast
  have "set (subscribedChannels ?m1 w) \<subseteq> set (subscribedChannels m w) - set cs"
    using closure_forEach_core[OF inv] by blast
  moreover have "subscribedChannels m w = cs" using c by (simp add: subscribedChannels_def)
  ultimately have "set (subscribedChannels ?m1 w) = {}" by simp
  then have empty: "subscribedChannels ?m1 w = []" by simp
  have idx: "subscribedChannels ?m2 w' = subscribedChannels ?m1 w'" for w'
    using empty by (simp add: subscribedChannels_def)
  have subs: "subscribers ?m2 = subscribers ?m1" by (simp add: subscribers_def fun_eq_iff)
  have "core_inv ?m2"
    unfolding core_inv_def
    using core_inv_index[OF inv1] core_inv_distinct[OF inv1] core_inv_verified[OF inv1]
      core_inv_user[OF inv1]
    by (auto simp: idx subs)
  then show ?thesis by (simp add: st)
qed

lemma core_handleTyping:
  "channels (snd (handleTyping e c uid uname b m)) = channels m \<and>
   wsToChannels (snd (handleTyping e c uid uname b m)) = wsToChannels m \<and>
   wsToUser (snd (handleTyping e c uid uname b m)) = wsToUser m \<and>
   onlineUsers (snd (handleTyping e c uid uname b m)) = onlineUsers m"
  by (simp add: handleTyping_def Let_def case_prod_beta split: option.splits)

lemma core_inv_exec: "core_inv m \<Longrightarrow> admitted x \<Longrightarrow> core_inv (snd (exec e x m))"
proof (cases x)
  case (Typing c uid uname b)
  assume "core_inv m"
  then show ?thesis using core_handleTyping[of e c uid uname b m] Typing
    by (auto intro: core_inv_frame)
next
  case TypingSweep
  assume "core_inv m"
  then show ?thesis using TypingSweep
    by (auto simp: typingCleanup_state intro: core_inv_frame)
qed (auto simp: core_inv_subscribe core_inv_unsubscribe core_inv_closure)

lemma core_inv_run:
  "core_inv m \<Longrightarrow> \<forall>st\<in>set steps. admitted (snd st) \<Longrightarrow> core_inv (run steps m)"
  by (induction steps arbitrary: m) (auto simp: core_inv_exec)

lemma core_inv_new: "core_inv new_ChannelManager"
  by (simp add: core_inv_def new_ChannelManager_def subscribers_def subscribedChannels_def)

lemma presence_inv_frame:
  "channels m' = channels m \<Longrightarrow> onlineUsers m' = onlineUsers m \<Longrightarrow>
   presence_inv m \<Longrightarrow> presence_inv m'"
  by (simp add: presence_inv_def subscribers_def online_def)

lemma presence_inv_online:
  "presence_inv m \<Longrightarrow>
   (u \<in> set (online m c)) = (\<exists>s\<in>set (subscribers m c). userId s = u)"
  by (simp add: presence_inv_def)

lemma presence_inv_subscribed:
  assumes pres: "presence_inv m"
  shows "presence_inv (subscribed c s m)"
  unfolding presence_inv_def
  by (auto simp: subscribers_subscribed_if online_subscribed_if set_Set_add
        presence_inv_online[OF pres])

lemma presence_inv_subscribe:
  assumes "presence_inv m"
  shows "presence_inv (snd (subscribe e c s m))"
  using subscribe_cases[of e c s m] assms presence_inv_subscribed[of m c s] by auto

lemma closure_channel_subscribers:
  assumes core: "core_inv m"
  shows "subscribers (snd (closure_channel e w uid c m)) c' =
      (if c' = c then filter (\<lambda>s. ws s \<noteq> w) (subscribers m c) else subscribers m c')"
proof -
  have "snd (unsubscribe_loop w (subscribers m c)) = filter (\<lambda>s. ws s \<noteq> w) (subscribers m c)"
    using core_inv_distinct[OF core] by (simp add: unsubscribe_loop_distinct)
  then show ?thesis
    by (simp add: closure_channel_state subscribers_unsubscribe before_unsubscribe_subscribers)
qed

lemma presence_inv_closure_channel:
  assumes core: "core_inv m" and pres: "presence_inv m"
    and uid: "verifiedUserId w = Some uid"
    and alone: "\<forall>x\<in>set (subscribers m c). userId x = uid \<longrightarrow> ws x = w"
  shows "presence_inv (snd (closure_channel e w uid c m))"
proof -
  let ?m = "snd (closure_channel e w uid c m)"
  note subs = closure_channel_subscribers[OF core, of e w uid c]
  have on: "online ?m c' = (if c' = c then Set_delete uid (online m c) else online m c')" for c'
    using before_unsubscribe_online[of e uid c m c']
    by (simp add: closure_channel_state online_def online_unsubscribe)
  note P = presence_inv_online[OF pres]
  have own: "userId s = uid \<longleftrightarrow> ws s = w" if "s \<in> set (subscribers m c)" for s
  proof
    assume "userId s = uid"
    then show "ws s = w" using alone that by blast
  next
    assume "ws s = w"
    then show "userId s = uid" using core_inv_verified[OF core that] uid by simp
  qed
  have "u \<in> set (online ?m c') \<longleftrightarrow> (\<exists>s\<in>set (subscribers ?m c'). userId s = u)" for c' u
  proof (cases "c' = c")
    case False
    then show ?thesis by (simp add: subs on P)
  next
    case True
    have "u \<in> set (online m c) - {uid} \<longleftrightarrow> (\<exists>s\<in>set (subscribers m c). ws s \<noteq> w \<and> userId s = u)"
      using own by (auto simp: P)
    then show ?thesis using True by (auto simp: subs on set_Set_delete)
  qed
  then show ?thesis unfolding presence_inv_def by blast
qed

lemma presence_inv_closure_forEach:
  "core_inv m \<Longrightarrow> presence_inv m \<Longrightarrow> verifiedUserId w = Some uid \<Longrightarrow>
   \<forall>c\<in>set cs. \<forall>x\<in>set (subscribers m c). userId x = uid \<longrightarrow> ws x = w \<Longrightarrow>
   presence_inv (snd (closure_forEach e w uid cs m))"
proof (induction cs arbitrary: m)
  case Nil then show ?case by simp
next
  case (Cons c cs)
  let ?m1 = "snd (closure_channel e w uid c m)"
  have core1: "core_inv ?m1"
    using Cons.prems(1) by (rule core_inv_closure_channel)
  have pres1: "presence_inv ?m1"
    using Cons.prems by (intro presence_inv_closure_channel) auto
  have alone1: "\<forall>c'\<in>set cs. \<forall>x\<in>set (subscribers ?m1 c'). userId x = uid \<longrightarrow> ws x = w"
    using Cons.prems(4) by (auto simp: closure_channel_subscribers[OF Cons.prems(1)])
  show ?case using Cons.IH[OF core1 pres1 Cons.prems(3) alone1] by (simp add: case_prod_beta)
qed

lemma presence_inv_closure:
  assumes core: "core_inv m" and pres: "presence_inv m" and step: "presence_step (Closure w) m"
  shows "presence_inv (snd (handleWebSocketClosure e w m))"
proof (cases "\<exists>cs uid. wsToChannels m w = Some cs \<and> wsToUser m w = Some uid \<and> uid \<noteq> []")
  case False
  then have "snd (handleWebSocketClosure e w m) = m"
    by (auto simp: handleWebSocketClosure_def split: option.splits)
  then show ?thesis using pres by simp
next
  case True
  then obtain cs uid where c: "wsToChannels m w = Some cs" "wsToUser m w = Some uid" "uid \<noteq> []"
    by blast
  have cs: "subscribedChannels m w = cs" using c by (simp add: subscribedChannels_def)
  have alone: "\<forall>c\<in>set cs. \<forall>x\<in>set (subscribers m c). userId x = uid \<longrightarrow> ws x = w"
    using step c(2) by (auto simp: cs)
  have uid: "verifiedUserId w = Some uid" using core c(2) by (rule core_inv_user)
  let ?m1 = "snd (closure_forEach e w uid cs m)"
  have "presence_inv ?m1" using core pres uid alone by (rule presence_inv_closure_forEach)
  then have "presence_inv
     (?m1\<lparr>wsToChannels := (wsToChannels ?m1)(w := None), wsToUser := (wsToUser ?m1)(w := None)\<rparr>)"
    by (auto intro: presence_inv_frame)
  then show ?thesis using c by (simp add: handleWebSocketClosure_def case_prod_beta)
qed

lemma presence_step_admitted: "presence_step x m \<Longrightarrow> admitted x"
  by (cases x) auto

lemma presence_inv_exec:
  assumes "core_inv m" "presence_inv m" "presence_step x m"
  shows "presence_inv (snd (exec e x m))"
proof (cases x)
  case (Subscribe c s)
  then show ?thesis using assms by (simp add: presence_inv_subscribe)
next
  case (Closure w)
  then show ?thesis using assms by (simp add: presence_inv_closure)
next
  case (Typing c uid uname b)
  then show ?thesis using assms(2) core_handleTyping[of e c uid uname b m]
    by (auto intro: presence_inv_frame)
next
  case TypingSweep
  then show ?thesis using assms(2) by (auto simp: typingCleanup_state intro: presence_inv_frame)
qed (use assms in auto)

lemma presence_inv_run:
  "core_inv m \<Longrightarrow> presence_inv m \<Longrightarrow> presence_safe steps m \<Longrightarrow> presence_inv (run steps m)"
proof (induction steps arbitrary: m)
  case Nil then show ?case by simp
next
  case (Cons st steps)
  obtain e x where st: "st = (e, x)" by (cases st)
  have step: "presence_step x m" and rest: "presence_safe steps (snd (exec e x m))"
    using Cons.prems(3) by (simp_all add: st)
  have "core_inv (snd (exec e x m))"
    using Cons.prems(1) presence_step_admitted[OF step] by (rule core_inv_exec)
  moreover have "presence_inv (snd (exec e x m))"
    using Cons.prems(1,2) step by (rule presence_inv_exec)
  ultimately show ?case using Cons.IH rest by (simp add: st)
qed

lemma presence_inv_new: "presence_inv new_ChannelManager"
  by (simp add: presence_inv_def new_ChannelManager_def subscribers_def online_def)

text \<open>
  Claim C2, as the specification states it, fails for a connection without a verified
  identity: it subscribes to \<open>x\<close> as \<open>u1\<close> and again as \<open>u2\<close> (two subscriptions, since
  duplicates are recognised by connection and userId), one \<^verbatim>\<open>unsubscribe\<close> removes the first
  of them and empties the connection's index entry, and the channel still holds a
  subscription of the connection while the index has no entry for it.
\<close>

theorem index_divergence_counterexample:
  "subscribers anonymous_twice_in_x ''x'' = [mk_subscription (mk_anonymous 9) ''u2''] \<and>
   ws (mk_subscription (mk_anonymous 9) ''u2'') = mk_anonymous 9 \<and>
   subscribedChannels anonymous_twice_in_x (mk_anonymous 9) = []"
  by (simp add: example_defs anonymous_twice_in_x_def op_defs)

text \<open>
  Claim C2, amended. After every finite sequence of \<^verbatim>\<open>subscribe\<close> calls by connections that
  carry a verified identity, \<^verbatim>\<open>unsubscribe\<close> calls and \<^verbatim>\<open>handleWebSocketClosure\<close> calls
  (typing signals and typing sweeps may be interleaved), starting from the empty manager:
  channel \<open>c\<close> holds a subscription of connection \<open>w\<close> if and only if \<open>c\<close> is in the
  \<open>wsToChannels\<close> entry of \<open>w\<close>.
\<close>

theorem index_consistency:
  assumes "\<forall>st\<in>set steps. admitted (snd st)"
  shows "(\<exists>s\<in>set (subscribers (run steps new_ChannelManager) c). ws s = w) \<longleftrightarrow>
         c \<in> set (subscribedChannels (run steps new_ChannelManager) w)"
  using core_inv_index[OF core_inv_run[OF core_inv_new assms]] by simp

theorem index_consistency_witness:
  "list_all (\<lambda>st. admitted (snd st)) alice_bob_steps \<and>
   map ws (subscribers (run alice_bob_steps new_ChannelManager) ''x'') = [bob] \<and>
   subscribedChannels (run alice_bob_steps new_ChannelManager) bob = [''x''] \<and>
   map ws (subscribers (run alice_bob_steps new_ChannelManager) ''y'') = [alice] \<and>
   subscribedChannels (run alice_bob_steps new_ChannelManager) alice = [''y''] \<and>
   ((\<exists>s\<in>set (subscribers (run alice_bob_steps new_ChannelManager) ''x''). ws s = alice) \<longleftrightarrow>
    ''x'' \<in> set (subscribedChannels (run alice_bob_steps new_ChannelManager) alice))"
proof -
  have adm: "\<forall>st\<in>set alice_bob_steps. admitted (snd st)"
    by (simp add: example_defs alice_bob_steps_def)
  have st: "map ws (subscribers (run alice_bob_steps new_ChannelManager) ''x'') = [bob]"
    "subscribedChannels (run alice_bob_steps new_ChannelManager) bob = [''x'']"
    "map ws (subscribers (run alice_bob_steps new_ChannelManager) ''y'') = [alice]"
    "subscribedChannels (run alice_bob_steps new_ChannelManager) alice = [''y'']"
    by (simp_all add: example_defs alice_bob_steps_def op_defs)
  show ?thesis
    using index_consistency[OF adm, of "''x''" alice] adm st
    by (simp add: list_all_iff)
qed

text \<open>
  Claim C3, as the specification states it, fails in three ways. \<^verbatim>\<open>unsubscribe\<close> does not
  touch \<open>onlineUsers\<close>: after \<open>alice\<close> subscribes to \<open>x\<close> and unsubscribes again, \<open>u1\<close> is still
  in the presence set of \<open>x\<close>, which holds no subscription. Presence is a set of userIds
  without a count: when user \<open>u1\<close> has two connections subscribed to \<open>x\<close> and one of them is
  torn down, \<open>u1\<close> leaves the presence set while the other subscription lives. And a
  connection without a verified identity that subscribed as \<open>u1\<close> and as \<open>u2\<close> is torn down
  as \<open>u2\<close> only, and loses its first subscription only.
\<close>

theorem presence_divergence_counterexample:
  "online alice_left_x ''x'' = [''u1''] \<and> subscribers alice_left_x ''x'' = [] \<and>
   online two_tabs_one_closed ''x'' = [] \<and>
   subscribers two_tabs_one_closed ''x'' = [mk_subscription alice_again ''u1''] \<and>
   online anonymous_closed ''x'' = [''u1''] \<and>
   subscribers anonymous_closed ''x'' = [mk_subscription (mk_anonymous 9) ''u2'']"
  by (simp add: example_defs alice_left_x_def two_tabs_one_closed_def anonymous_closed_def
        alice_again_def op_defs handleWebSocketClosure_def closure_channel_def)

text \<open>
  Claim C3, amended. After every finite sequence of \<^verbatim>\<open>subscribe\<close> calls by connections with
  a verified identity and \<^verbatim>\<open>handleWebSocketClosure\<close> calls (typing signals and sweeps may be
  interleaved; no stand-alone \<^verbatim>\<open>unsubscribe\<close>), starting from the empty manager, in which at
  each teardown no other connection holds a subscription under the torn-down connection's
  userId in one of its channels: a userId is in the presence set of a channel if and only
  if the channel holds a subscription with that userId. A stand-alone \<^verbatim>\<open>unsubscribe\<close> leaves
  every presence set as it was.
\<close>

theorem presence_consistency:
  assumes "presence_safe steps new_ChannelManager"
  shows "(u \<in> set (online (run steps new_ChannelManager) c) \<longleftrightarrow>
          (\<exists>s\<in>set (subscribers (run steps new_ChannelManager) c). userId s = u)) \<and>
         onlineUsers (snd (unsubscribe c' w m)) = onlineUsers m"
  using presence_inv_run[OF core_inv_new presence_inv_new assms]
  by (simp add: presence_inv_def online_unsubscribe)

text \<open>
  A user who comes back on a new connection after the teardown of the old one: the
  sequence satisfies the condition and presence follows the subscriptions.
\<close>

theorem presence_consistency_witness:
  "presence_safe reconnect_steps new_ChannelManager \<and>
   verifiedUserId alice = Some ''u1'' \<and> verifiedUserId alice_again = Some ''u1'' \<and>
   online (run reconnect_steps new_ChannelManager) ''x'' = [''u2'', ''u1''] \<and>
   map userId (subscribers (run reconnect_steps new_ChannelManager) ''x'') = [''u2'', ''u1''] \<and>
   map ws (subscribers (run reconnect_steps new_ChannelManager) ''x'') = [bob, alice_again] \<and>
   (''u1'' \<in> set (online (run reconnect_steps new_ChannelManager) ''x'') \<longleftrightarrow>
    (\<exists>s\<in>set (subscribers (run reconnect_steps new_ChannelManager) ''x'').
       userId s = ''u1''))"
proof -
  have safe: "presence_safe reconnect_steps new_ChannelManager"
    by (simp add: example_defs reconnect_steps_def alice_again_def op_defs)
  have v: "verifiedUserId alice = Some ''u1''" "verifiedUserId alice_again = Some ''u1''"
    by (simp_all add: example_defs alice_again_def verifiedUserId_def)
  have st: "online (run reconnect_steps new_ChannelManager) ''x'' = [''u2'', ''u1'']"
    "map userId (subscribers (run reconnect_steps new_ChannelManager) ''x'') = [''u2'', ''u1'']"
    "map ws (subscribers (run reconnect_steps new_ChannelManager) ''x'') = [bob, alice_again]"
    by (simp_all add: example_defs reconnect_steps_def alice_again_def op_defs
          handleWebSocketClosure_def closure_channel_def)
  show ?thesis
    using presence_consistency[OF safe, of "''u1''" "''x''"] safe v st
    by simp
qed

section \<open>\<^verbatim>\<open>handleWebSocketClosure\<close>\<close>














end
